theory Spec2Isabelle
  imports Main "HOL-Library.Word"
begin

unbundle bit_operations_syntax

section \<open>The S25FL064L flash driver: data model\<close>

text \<open>
  The driver (S25FL064L.c, S25FL064L_Defs.h) talks to the flash chip through four function
  pointers stored in the device object. The model is a shallow embedding with explicit state
  passing:
  \<^item> the hardware behind the function pointers is a state of type \<open>'s\<close>; a function pointer
    is an optional HOL function on that state, \<open>None\<close> being the C null pointer;
  \<^item> a pointer to bytes is the function giving the byte at each offset from the pointer
    (\<open>nat \<Rightarrow> u8\<close>), wrapped in \<open>option\<close> where the source tests it against NULL;
  \<^item> \<open>p_Device\<close> is the device object itself: the model describes calls with a non-null
    device pointer, so the disjunct \<open>p_Device == NULL\<close> of the source's parameter checks is
    false in every modelled call; a function that writes to the object returns it updated;
  \<^item> a function that may not return yields an \<open>option\<close>: \<open>None\<close> stands for a busy poll
    that never ends or for a call through a null function pointer.
\<close>

type_synonym u8 = "8 word"
type_synonym u16 = "16 word"
type_synonym u32 = "32 word"

datatype s25fl064_error_t =
    S25FL064_NO_ERROR
  | S25FL064_INVALID_PARAM
  | S25FL064_NOT_INITIALIZED
  | S25FL064_WRITE_PROTECTED

datatype s25fl064_imp_t = S25FL064_IMP_0 | S25FL064_IMP_1 | S25FL064_IMP_2 | S25FL064_IMP_3

text \<open>
  The exchange function \<open>p_RW(p_Tx_Data, Tx_Length, p_Rx_Data, Rx_Length)\<close> receives the
  \<open>Tx_Length\<close> bytes to send as a list and the receive length; it returns its status, the
  bytes it stored at each offset of \<open>p_Rx_Data\<close>, and the new hardware state.
\<close>

type_synonym 's s25fl06_reset_fptr_t = "'s \<Rightarrow> 's"
type_synonym 's s25fl06_cs_fptr_t = "bool \<Rightarrow> 's \<Rightarrow> 's"
type_synonym 's s25fl06_rw_fptr_t = "u8 list \<Rightarrow> nat \<Rightarrow> 's \<Rightarrow> s25fl064_error_t \<times> (nat \<Rightarrow> u8) \<times> 's"
type_synonym 's s25fl06_busy_fptr_t = "'s \<Rightarrow> 's"

record 's s25fl064_t =
  p_Reset :: "'s s25fl06_reset_fptr_t option"
  p_CS :: "'s s25fl06_cs_fptr_t option"
  p_RW :: "'s s25fl06_rw_fptr_t option"
  p_Busy :: "'s s25fl06_busy_fptr_t option"
  isInitialized :: bool
  isPowerDown :: bool
  isWriteProtect :: bool
  isShortAddress :: bool
  isQPI :: bool
  MID :: u8
  DID :: u16
  UID :: "u8 list"
  BlockSize :: u32
  Blocks :: u32
  Impedance :: s25fl064_imp_t

subsection \<open>Constants of S25FL064L.c and S25FL064L_Defs.h\<close>

abbreviation (input) S25FL064L_CMD_RSFDP :: u8 where "S25FL064L_CMD_RSFDP \<equiv> 0x5A"
abbreviation (input) S25FL064L_CMD_DPD :: u8 where "S25FL064L_CMD_DPD \<equiv> 0xB9"
abbreviation (input) S25FL064L_CMD_RES :: u8 where "S25FL064L_CMD_RES \<equiv> 0xAB"
abbreviation (input) S25FL064L_CMD_RDID :: u8 where "S25FL064L_CMD_RDID \<equiv> 0x9F"
abbreviation (input) S25FL064L_CMD_CE :: u8 where "S25FL064L_CMD_CE \<equiv> 0x60"
abbreviation (input) S25FL064L_CMD_RUID :: u8 where "S25FL064L_CMD_RUID \<equiv> 0x4B"
abbreviation (input) S25FL064L_CMD_CLSR :: u8 where "S25FL064L_CMD_CLSR \<equiv> 0x30"
abbreviation (input) S25FL064L_CMD_SE :: u8 where "S25FL064L_CMD_SE \<equiv> 0x21"
abbreviation (input) S25FL064L_CMD_RDCR2 :: u8 where "S25FL064L_CMD_RDCR2 \<equiv> 0x15"
abbreviation (input) S25FL064L_CMD_4READ :: u8 where "S25FL064L_CMD_4READ \<equiv> 0x13"
abbreviation (input) S25FL064L_CMD_4PP :: u8 where "S25FL064L_CMD_4PP \<equiv> 0x12"
abbreviation (input) S25FL064L_CMD_WREN :: u8 where "S25FL064L_CMD_WREN \<equiv> 0x06"
abbreviation (input) S25FL064L_CMD_RDSR2 :: u8 where "S25FL064L_CMD_RDSR2 \<equiv> 0x07"
abbreviation (input) S25FL064L_CMD_RDSR1 :: u8 where "S25FL064L_CMD_RDSR1 \<equiv> 0x05"

abbreviation (input) S25FL064L_BIT_ADDR_LENGTH :: nat where "S25FL064L_BIT_ADDR_LENGTH \<equiv> 0"
abbreviation (input) S25FL064L_BIT_BUSY :: nat where "S25FL064L_BIT_BUSY \<equiv> 0"
abbreviation (input) S25FL064L_BIT_WEL :: nat where "S25FL064L_BIT_WEL \<equiv> 1"

abbreviation (input) S25FL064L_MASK_PROG_ERROR :: u8 where "S25FL064L_MASK_PROG_ERROR \<equiv> push_bit 0 1"
abbreviation (input) S25FL064L_MASK_ERASE_ERROR :: u8 where "S25FL064L_MASK_ERASE_ERROR \<equiv> push_bit 1 1"

abbreviation (input) S25FL064L_PAGE_SIZE :: u32 where "S25FL064L_PAGE_SIZE \<equiv> 256"
abbreviation (input) S25FL064L_SECTOR_COUNT :: u32 where "S25FL064L_SECTOR_COUNT \<equiv> 2048"
abbreviation (input) S25FL064L_SECTOR_SIZE :: u32 where "S25FL064L_SECTOR_SIZE \<equiv> 4096"
abbreviation (input) S25FL064L_DEVICE_ID :: u16 where "S25FL064L_DEVICE_ID \<equiv> 0x6017"

section \<open>The driver functions\<close>

text \<open>
  \<open>S25FL064L_Command\<close>: one chip-select window around one exchange. \<open>p_Data_null\<close> says
  whether the receive pointer is NULL. The result is \<open>Inl (Error, s)\<close> when the function
  returns an error code and \<open>Inr (Rx, s)\<close>, with the received bytes, when it returns
  \<open>S25FL064_NO_ERROR\<close>; the caller's test \<open>if(Error != S25FL064_NO_ERROR) return Error;\<close>
  is the case distinction on this result.
\<close>

definition S25FL064L_Command ::
  "'s s25fl064_t \<Rightarrow> u8 list \<Rightarrow> bool \<Rightarrow> nat \<Rightarrow> 's \<Rightarrow> (s25fl064_error_t \<times> 's) + ((nat \<Rightarrow> u8) \<times> 's)"
where
  "S25FL064L_Command p_Device p_Command p_Data_null Length s =
    (case p_RW p_Device of
       None \<Rightarrow> Inl (S25FL064_INVALID_PARAM, s)
     | Some rw \<Rightarrow>
        (case p_CS p_Device of
           None \<Rightarrow> Inl (S25FL064_INVALID_PARAM, s)
         | Some cs \<Rightarrow>
            if p_Data_null \<and> Length > 0 then Inl (S25FL064_INVALID_PARAM, s)
            else
              (case rw p_Command Length (cs True s) of
                 (Error, Rx, s') \<Rightarrow>
                   if Error \<noteq> S25FL064_NO_ERROR then Inl (Error, cs False s')
                   else Inr (Rx, cs False s'))))"

text \<open>\<open>S25FL064L_ReadID\<close>: manufacturer and device ID from the four bytes of RDID.\<close>

definition S25FL064L_ReadID ::
  "'s s25fl064_t \<Rightarrow> 's \<Rightarrow> s25fl064_error_t \<times> 's s25fl064_t \<times> 's"
where
  "S25FL064L_ReadID p_Device s =
    (case S25FL064L_Command p_Device [S25FL064L_CMD_RDID] False 4 s of
       Inl (Error, s') \<Rightarrow> (Error, p_Device, s')
     | Inr (Rx_Buffer, s') \<Rightarrow>
         (S25FL064_NO_ERROR,
          p_Device\<lparr>MID := Rx_Buffer 1,
                   DID := push_bit 8 (ucast (Rx_Buffer 2)) OR ucast (Rx_Buffer 3)\<rparr>,
          s'))"

text \<open>
  \<open>S25FL064L_ReadUID\<close>: the command with four dummy bytes, then eight bytes received
  straight into the \<open>UID\<close> field of the device object, in one chip-select window.
\<close>

definition S25FL064L_ReadUID ::
  "'s s25fl064_t \<Rightarrow> 's \<Rightarrow> s25fl064_error_t \<times> 's s25fl064_t \<times> 's"
where
  "S25FL064L_ReadUID p_Device s =
    (case p_RW p_Device of
       None \<Rightarrow> (S25FL064_INVALID_PARAM, p_Device, s)
     | Some rw \<Rightarrow>
        (case p_CS p_Device of
           None \<Rightarrow> (S25FL064_INVALID_PARAM, p_Device, s)
         | Some cs \<Rightarrow>
            (case rw [S25FL064L_CMD_RUID] 5 (cs True s) of
               (Error, Rx_Buffer, s1) \<Rightarrow>
                 if Error \<noteq> S25FL064_NO_ERROR then (Error, p_Device, cs False s1)
                 else
                   (case rw [] 8 s1 of
                      (Error, Rx, s2) \<Rightarrow>
                        (Error, p_Device\<lparr>UID := map Rx [0..<8]\<rparr>, cs False s2)))))"

text \<open>
  \<open>S25FL064L_WaitBusy\<close>: polls status register 1 until the busy bit reads clear, calling the
  optional busy function after every poll. The loop has no bound, so the function is partial:
  \<open>None\<close> is the poll that never ends.
\<close>

partial_function (option) S25FL064L_WaitBusy ::
  "'s s25fl064_t \<Rightarrow> 's \<Rightarrow> (s25fl064_error_t \<times> 's) option"
where
  "S25FL064L_WaitBusy p_Device s =
    (case S25FL064L_Command p_Device [S25FL064L_CMD_RDSR1] False 2 s of
       Inl (Error, s') \<Rightarrow> Some (Error, s')
     | Inr (Rx_Buffer, s') \<Rightarrow>
         (let s'' = (case p_Busy p_Device of Some busy \<Rightarrow> busy s' | None \<Rightarrow> s')
          in if Rx_Buffer 1 AND push_bit S25FL064L_BIT_BUSY 1 \<noteq> 0
             then S25FL064L_WaitBusy p_Device s''
             else Some (S25FL064_NO_ERROR, s'')))"

text \<open>
  \<open>S25FL064L_ReadJEDEC\<close>: the SFDP command with a four-byte zero address, then
  \<open>sizeof(Params)\<close> = 24 bytes (an 8-byte header and two 8-byte parameter headers, packed)
  received into the file-static \<open>Params\<close>. No function of the driver reads \<open>Params\<close>, so the
  model does not carry it.
\<close>

definition S25FL064L_ReadJEDEC :: "'s s25fl064_t \<Rightarrow> 's \<Rightarrow> s25fl064_error_t \<times> 's"
where
  "S25FL064L_ReadJEDEC p_Device s =
    (case p_RW p_Device of
       None \<Rightarrow> (S25FL064_INVALID_PARAM, s)
     | Some rw \<Rightarrow>
        (case p_CS p_Device of
           None \<Rightarrow> (S25FL064_INVALID_PARAM, s)
         | Some cs \<Rightarrow>
            (case rw [S25FL064L_CMD_RSFDP, 0x00, 0x00, 0x00, 0x00] 5 (cs True s) of
               (Error, Rx_Buffer, s1) \<Rightarrow>
                 if Error \<noteq> S25FL064_NO_ERROR then (Error, cs False s1)
                 else
                   (case rw [] 24 s1 of
                      (Error, Params, s2) \<Rightarrow> (Error, cs False s2)))))"

text \<open>
  \<open>S25FL064L_Reset\<close>, \<open>S25FL064L_EnterPowerDown\<close>, \<open>S25FL064L_LeavePowerDown\<close>.
\<close>

definition S25FL064L_Reset ::
  "'s s25fl064_t \<Rightarrow> 's \<Rightarrow> s25fl064_error_t \<times> 's s25fl064_t \<times> 's"
where
  "S25FL064L_Reset p_Device s =
    (case p_Reset p_Device of
       None \<Rightarrow> (S25FL064_INVALID_PARAM, p_Device, s)
     | Some reset \<Rightarrow> (S25FL064_NO_ERROR, p_Device\<lparr>isInitialized := False\<rparr>, reset s))"

definition S25FL064L_EnterPowerDown ::
  "'s s25fl064_t \<Rightarrow> 's \<Rightarrow> s25fl064_error_t \<times> 's s25fl064_t \<times> 's"
where
  "S25FL064L_EnterPowerDown p_Device s =
    (case S25FL064L_Command p_Device [S25FL064L_CMD_DPD] True 0 s of
       Inl (Error, s') \<Rightarrow> (Error, p_Device, s')
     | Inr (_, s') \<Rightarrow> (S25FL064_NO_ERROR, p_Device\<lparr>isPowerDown := True\<rparr>, s'))"

definition S25FL064L_LeavePowerDown ::
  "'s s25fl064_t \<Rightarrow> 's \<Rightarrow> (s25fl064_error_t \<times> 's s25fl064_t \<times> 's) option"
where
  "S25FL064L_LeavePowerDown p_Device s =
    (case S25FL064L_Command p_Device [S25FL064L_CMD_RES] True 0 s of
       Inl (Error, s') \<Rightarrow> Some (Error, p_Device, s')
     | Inr (_, s') \<Rightarrow>
        (case S25FL064L_WaitBusy p_Device s' of
           None \<Rightarrow> None
         | Some (Error, s'') \<Rightarrow>
             if Error \<noteq> S25FL064_NO_ERROR then Some (Error, p_Device, s'')
             else Some (Error, p_Device\<lparr>isPowerDown := False\<rparr>, s'')))"

text \<open>
  C's \<open>a || b\<close> is an \<open>int\<close>, 0 or 1, and the driver assigns it to a variable of type
  \<open>s25fl064_error_t\<close>: 1 is \<open>S25FL064_INVALID_PARAM\<close>.
\<close>

definition logical_or_result :: "bool \<Rightarrow> s25fl064_error_t" where
  "logical_or_result b = (if b then S25FL064_INVALID_PARAM else S25FL064_NO_ERROR)"

text \<open>The conversion of the two impedance bits to the enumeration \<open>s25fl064_imp_t\<close>.\<close>

definition imp_of :: "u8 \<Rightarrow> s25fl064_imp_t" where
  "imp_of v = (if v = 0 then S25FL064_IMP_0 else if v = 1 then S25FL064_IMP_1
               else if v = 2 then S25FL064_IMP_2 else S25FL064_IMP_3)"

text \<open>
  \<open>S25FL064L_Init\<close>. The three identification reads are joined with \<open>||\<close>, which stops at
  the first one that fails. Both branches of the address-length test assign \<open>false\<close>.
\<close>

definition S25FL064L_Init ::
  "'s s25fl064_t \<Rightarrow> 's \<Rightarrow> (s25fl064_error_t \<times> 's s25fl064_t \<times> 's) option"
where
  "S25FL064L_Init p_Device s =
    (case S25FL064L_LeavePowerDown (p_Device\<lparr>isInitialized := False\<rparr>) s of
       None \<Rightarrow> None
     | Some (Error, d1, s1) \<Rightarrow>
        if Error \<noteq> S25FL064_NO_ERROR then Some (Error, d1, s1)
        else
         (case S25FL064L_Reset d1 s1 of
            (Error, d2, s2) \<Rightarrow>
              if Error \<noteq> S25FL064_NO_ERROR then Some (Error, d2, s2)
              else
               (case S25FL064L_ReadID d2 s2 of
                  (E1, d3, s3) \<Rightarrow>
                    if E1 \<noteq> S25FL064_NO_ERROR then Some (logical_or_result True, d3, s3)
                    else
                     (case S25FL064L_ReadUID d3 s3 of
                        (E2, d4, s4) \<Rightarrow>
                          if E2 \<noteq> S25FL064_NO_ERROR then Some (logical_or_result True, d4, s4)
                          else
                           (case S25FL064L_ReadJEDEC d4 s4 of
                              (E3, s5) \<Rightarrow>
                                if logical_or_result (E3 \<noteq> S25FL064_NO_ERROR) \<noteq> S25FL064_NO_ERROR
                                then Some (logical_or_result (E3 \<noteq> S25FL064_NO_ERROR), d4, s5)
                                else
                                 (case S25FL064L_Command d4 [S25FL064L_CMD_RDCR2] False 2 s5 of
                                    Inl (Error, s6) \<Rightarrow> Some (Error, d4, s6)
                                  | Inr (Rx_Buffer, s6) \<Rightarrow>
                                      Some (S25FL064_NO_ERROR,
                                        d4\<lparr>isShortAddress :=
                                              (if Rx_Buffer 1 AND push_bit S25FL064L_BIT_ADDR_LENGTH 1 \<noteq> 0
                                               then False else False),
                                            Impedance := imp_of (drop_bit 5 (Rx_Buffer 1) AND 0x03),
                                            isQPI := (drop_bit 3 (Rx_Buffer 1) AND 0x01 \<noteq> 0),
                                            BlockSize := S25FL064L_SECTOR_SIZE,
                                            Blocks := S25FL064L_SECTOR_COUNT,
                                            isInitialized := True,
                                            isPowerDown := False,
                                            isWriteProtect := False\<rparr>,
                                        s6)))))))"

text \<open>
  \<open>S25FL064L_GetError\<close>. \<open>p_Error\<close> is the byte the output pointer refers to: the model
  takes its old value and returns the new one.
\<close>

definition S25FL064L_GetError ::
  "'s s25fl064_t \<Rightarrow> u8 \<Rightarrow> 's \<Rightarrow> s25fl064_error_t \<times> u8 \<times> 's"
where
  "S25FL064L_GetError p_Device p_Error s =
    (case S25FL064L_Command p_Device [S25FL064L_CMD_RDSR2] False 2 s of
       Inl (Error, s') \<Rightarrow> (Error, p_Error, s')
     | Inr (Rx_Buffer, s') \<Rightarrow>
        (case S25FL064L_Command p_Device [S25FL064L_CMD_CLSR] True 0 s' of
           Inl (Error, s'') \<Rightarrow> (Error, drop_bit 5 (Rx_Buffer 1 AND 0x60), s'')
         | Inr (_, s'') \<Rightarrow> (S25FL064_NO_ERROR, drop_bit 5 (Rx_Buffer 1 AND 0x60), s'')))"

text \<open>
  The five assignments that frame a command with a 32-bit address, most significant
  byte first, in the local array \<open>Tx_Buffer\<close>.
\<close>

definition address_frame :: "(nat \<Rightarrow> u8) \<Rightarrow> u8 \<Rightarrow> u32 \<Rightarrow> nat \<Rightarrow> u8" where
  "address_frame Tx_Buffer opcode Address =
     Tx_Buffer(0 := opcode,
               1 := ucast (drop_bit 24 (Address AND 0xFF000000)),
               2 := ucast (drop_bit 16 (Address AND 0x00FF0000)),
               3 := ucast (drop_bit 8 (Address AND 0x0000FF00)),
               4 := ucast (drop_bit 0 (Address AND 0x000000FF)))"

text \<open>
  \<open>S25FL064L_EraseSector\<close>. \<open>Tx_Buffer[5] = {S25FL064L_CMD_WREN}\<close> zero-fills the other
  four bytes. The chip-select and exchange pointers are called without a test after
  the write-enable command.
\<close>

definition S25FL064L_EraseSector ::
  "'s s25fl064_t \<Rightarrow> u32 \<Rightarrow> 's \<Rightarrow> (s25fl064_error_t \<times> 's) option"
where
  "S25FL064L_EraseSector p_Device Address s =
    (let Tx_Buffer = (\<lambda>i. 0)(0 := S25FL064L_CMD_WREN) in
     case S25FL064L_Command p_Device (map Tx_Buffer [0..<1]) True 0 s of
       Inl (Error, s1) \<Rightarrow> Some (Error, s1)
     | Inr (_, s1) \<Rightarrow>
        (case p_CS p_Device of
           None \<Rightarrow> None
         | Some cs \<Rightarrow>
            (case p_RW p_Device of
               None \<Rightarrow> None
             | Some rw \<Rightarrow>
                (case rw (map (address_frame Tx_Buffer S25FL064L_CMD_SE Address) [0..<5]) 0 (cs True s1) of
                   (Error, _, s2) \<Rightarrow>
                     if Error \<noteq> S25FL064_NO_ERROR then Some (Error, cs False s2)
                     else S25FL064L_WaitBusy p_Device (cs False s2)))))"

definition S25FL064L_EraseChip ::
  "'s s25fl064_t \<Rightarrow> 's \<Rightarrow> (s25fl064_error_t \<times> 's) option"
where
  "S25FL064L_EraseChip p_Device s =
    (case S25FL064L_Command p_Device [S25FL064L_CMD_WREN] True 0 s of
       Inl (Error, s1) \<Rightarrow> Some (Error, s1)
     | Inr (_, s1) \<Rightarrow>
        (case S25FL064L_Command p_Device [S25FL064L_CMD_CE] True 0 s1 of
           Inl (Error, s2) \<Rightarrow> Some (Error, s2)
         | Inr (_, s2) \<Rightarrow> S25FL064L_WaitBusy p_Device s2))"

text \<open>Pointer arithmetic on a byte pointer: \<open>p + k\<close>.\<close>

definition offset_bytes :: "(nat \<Rightarrow> u8) \<Rightarrow> nat \<Rightarrow> nat \<Rightarrow> u8" where
  "offset_bytes p k i = p (i + k)"

text \<open>
  \<open>S25FL064L_Write\<close>. The local array \<open>Tx_Buffer\<close> is not initialised and the status read
  sends \<open>sizeof(Tx_Buffer)\<close> = 5 bytes of it, so its indeterminate first contents reach the
  bus: they are the extra argument \<open>Tx_Buffer\<close> of the model. \<open>S25FL064L_Write_body\<close> is one
  pass through the body of the \<open>do ... while\<close> loop: \<open>Inl\<close> is a \<open>return\<close> inside the body,
  \<open>Inr\<close> the end of the body with the new values of the loop variables. The partial-page
  branch sends from \<open>p_Buffer\<close>, the full-page branch from \<open>p_Buffer_Temp\<close>.
\<close>

definition S25FL064L_Write_body ::
  "'s s25fl064_t \<Rightarrow> (nat \<Rightarrow> u8) \<Rightarrow> (nat \<Rightarrow> u8) \<Rightarrow> (nat \<Rightarrow> u8) \<Rightarrow> u32 \<Rightarrow> u32 \<Rightarrow> 's \<Rightarrow>
   ((s25fl064_error_t \<times> 's) + ((nat \<Rightarrow> u8) \<times> (nat \<Rightarrow> u8) \<times> u32 \<times> u32 \<times> 's)) option"
where
  "S25FL064L_Write_body p_Device p_Buffer Tx_Buffer p_Buffer_Temp MemoryAddress RemainingBytes s =
    (let Tx1 = Tx_Buffer(0 := S25FL064L_CMD_WREN) in
     case S25FL064L_Command p_Device (map Tx1 [0..<1]) True 0 s of
       Inl (Error, s1) \<Rightarrow> Some (Inl (Error, s1))
     | Inr (_, s1) \<Rightarrow>
        (let Tx2 = Tx1(0 := S25FL064L_CMD_RDSR1) in
         case S25FL064L_Command p_Device (map Tx2 [0..<5]) False 2 s1 of
           Inl (Error, s2) \<Rightarrow> Some (Inl (Error, s2))
         | Inr (Rx_Buffer, s2) \<Rightarrow>
            if Rx_Buffer 1 AND push_bit S25FL064L_BIT_WEL 1 = 0
            then Some (Inl (S25FL064_WRITE_PROTECTED, s2))
            else
             (let Tx3 = address_frame Tx2 S25FL064L_CMD_4PP MemoryAddress in
              case p_CS p_Device of
                None \<Rightarrow> None
              | Some cs \<Rightarrow>
                 (case p_RW p_Device of
                    None \<Rightarrow> None
                  | Some rw \<Rightarrow>
                     (case rw (map Tx3 [0..<5]) 0 (cs True s2) of
                        (Error, _, s3) \<Rightarrow>
                          if Error \<noteq> S25FL064_NO_ERROR then Some (Inl (Error, cs False s3))
                          else if RemainingBytes \<ge> S25FL064L_PAGE_SIZE then
                           (case rw (map p_Buffer_Temp [0..<255]) 0 s3 of
                              (E1, _, s4) \<Rightarrow>
                               (case (if E1 \<noteq> S25FL064_NO_ERROR then (logical_or_result True, s4)
                                      else (case rw (map (offset_bytes p_Buffer_Temp 255) [0..<1]) 0 s4 of
                                              (E2, _, s5) \<Rightarrow>
                                                (logical_or_result (E2 \<noteq> S25FL064_NO_ERROR), s5))) of
                                  (Error, s5) \<Rightarrow>
                                    if Error \<noteq> S25FL064_NO_ERROR then Some (Inl (Error, cs False s5))
                                    else
                                     (case S25FL064L_WaitBusy p_Device (cs False s5) of
                                        None \<Rightarrow> None
                                      | Some (Error, s6) \<Rightarrow>
                                          if Error \<noteq> S25FL064_NO_ERROR
                                          then Some (Inl (Error, cs False s6))
                                          else Some (Inr (Tx3,
                                                 offset_bytes p_Buffer_Temp (unat S25FL064L_PAGE_SIZE),
                                                 MemoryAddress + S25FL064L_PAGE_SIZE,
                                                 RemainingBytes - S25FL064L_PAGE_SIZE,
                                                 cs False s6)))))
                          else
                           (case rw (map p_Buffer [0..<unat RemainingBytes]) 0 s3 of
                              (Error, _, s4) \<Rightarrow>
                                if Error \<noteq> S25FL064_NO_ERROR then Some (Inl (Error, cs False s4))
                                else
                                 (case S25FL064L_WaitBusy p_Device (cs False s4) of
                                    None \<Rightarrow> None
                                  | Some (Error, s5) \<Rightarrow>
                                      if Error \<noteq> S25FL064_NO_ERROR
                                      then Some (Inl (Error, cs False s5))
                                      else Some (Inr (Tx3, p_Buffer_Temp, MemoryAddress,
                                             RemainingBytes - RemainingBytes, cs False s5)))))))))"

lemma S25FL064L_Write_body_remaining:
  assumes "S25FL064L_Write_body p_Device p_Buffer Tx_Buffer p_Buffer_Temp MemoryAddress RemainingBytes s
           = Some (Inr (Tx', Temp', Address', Remaining', s'))"
  shows "Remaining' = 0 \<or> (S25FL064L_PAGE_SIZE \<le> RemainingBytes \<and> Remaining' = RemainingBytes - S25FL064L_PAGE_SIZE)"
  using assms
  by (auto simp: S25FL064L_Write_body_def Let_def
           split: sum.splits option.splits prod.splits if_splits)

lemma S25FL064L_Write_body_decreases:
  assumes "S25FL064L_Write_body p_Device p_Buffer Tx_Buffer p_Buffer_Temp MemoryAddress RemainingBytes s
           = Some (Inr (Tx', Temp', Address', Remaining', s'))"
    and "0 < Remaining'"
  shows "unat Remaining' < unat RemainingBytes"
proof -
  from S25FL064L_Write_body_remaining [OF assms(1)] assms(2)
  have le: "S25FL064L_PAGE_SIZE \<le> RemainingBytes" and eq: "Remaining' = RemainingBytes - S25FL064L_PAGE_SIZE"
    by auto
  from le have "unat (RemainingBytes - S25FL064L_PAGE_SIZE) = unat RemainingBytes - 256"
    by (simp add: unat_sub)
  moreover from le have "256 \<le> unat RemainingBytes"
    by (simp add: word_le_nat_alt)
  ultimately show ?thesis using eq by simp
qed

function S25FL064L_Write_loop ::
  "'s s25fl064_t \<Rightarrow> (nat \<Rightarrow> u8) \<Rightarrow> (nat \<Rightarrow> u8) \<Rightarrow> (nat \<Rightarrow> u8) \<Rightarrow> u32 \<Rightarrow> u32 \<Rightarrow> 's \<Rightarrow>
   (s25fl064_error_t \<times> 's) option"
where
  "S25FL064L_Write_loop p_Device p_Buffer Tx_Buffer p_Buffer_Temp MemoryAddress RemainingBytes s =
    (case S25FL064L_Write_body p_Device p_Buffer Tx_Buffer p_Buffer_Temp MemoryAddress RemainingBytes s of
       None \<Rightarrow> None
     | Some (Inl r) \<Rightarrow> Some r
     | Some (Inr (Tx', Temp', Address', Remaining', s')) \<Rightarrow>
         if Remaining' > 0
         then S25FL064L_Write_loop p_Device p_Buffer Tx' Temp' Address' Remaining' s'
         else S25FL064L_WaitBusy p_Device s')"
  by pat_completeness auto
termination
  by (relation "measure (\<lambda>(d, b, tx, tmp, a, r, s). unat r)")
     (auto dest: S25FL064L_Write_body_decreases)

declare S25FL064L_Write_loop.simps [simp del]

definition S25FL064L_Write ::
  "'s s25fl064_t \<Rightarrow> u32 \<Rightarrow> (nat \<Rightarrow> u8) option \<Rightarrow> u32 \<Rightarrow> (nat \<Rightarrow> u8) \<Rightarrow> 's \<Rightarrow>
   (s25fl064_error_t \<times> 's) option"
where
  "S25FL064L_Write p_Device Address p_Buffer Length Tx_Buffer s =
    (case p_Buffer of
       None \<Rightarrow> Some (S25FL064_INVALID_PARAM, s)
     | Some buf \<Rightarrow> S25FL064L_Write_loop p_Device buf Tx_Buffer buf Address Length s)"

text \<open>
  \<open>S25FL064L_Read\<close>. The caller's buffer is the memory \<open>buf\<close> at \<open>p_Buffer\<close>; the moving
  pointer \<open>p_Buffer_Temp\<close> is its offset \<open>off\<close> from \<open>p_Buffer\<close>. \<open>store\<close> is what an
  exchange that receives \<open>n\<close> bytes at \<open>p_Buffer_Temp\<close> leaves in the buffer. All five bytes
  of \<open>Tx_Buffer\<close> are assigned before it is sent. The chip-select and exchange pointers are
  called without a test.
\<close>

definition store :: "(nat \<Rightarrow> u8) \<Rightarrow> nat \<Rightarrow> nat \<Rightarrow> (nat \<Rightarrow> u8) \<Rightarrow> nat \<Rightarrow> u8" where
  "store buf off n Rx = (\<lambda>i. if off \<le> i \<and> i < off + n then Rx (i - off) else buf i)"

definition S25FL064L_Read_body ::
  "'s s25fl064_t \<Rightarrow> (nat \<Rightarrow> u8) \<Rightarrow> nat \<Rightarrow> u32 \<Rightarrow> 's \<Rightarrow>
   ((s25fl064_error_t \<times> (nat \<Rightarrow> u8) \<times> 's) + ((nat \<Rightarrow> u8) \<times> nat \<times> u32 \<times> 's)) option"
where
  "S25FL064L_Read_body p_Device buf off RemainingBytes s =
    (let TransmissionLength :: u8 = (if RemainingBytes > 255 then 255 else ucast RemainingBytes) in
     case p_RW p_Device of
       None \<Rightarrow> None
     | Some rw \<Rightarrow>
        (case rw [] (unat TransmissionLength) s of
           (Error, Rx, s1) \<Rightarrow>
             if Error \<noteq> S25FL064_NO_ERROR then
               (case p_CS p_Device of
                  None \<Rightarrow> None
                | Some cs \<Rightarrow>
                    Some (Inl (Error, store buf off (unat TransmissionLength) Rx, cs False s1)))
             else Some (Inr (store buf off (unat TransmissionLength) Rx,
                             off + unat TransmissionLength,
                             RemainingBytes - ucast TransmissionLength,
                             s1))))"

lemma ucast_u8_u32_small: "\<not> 255 < (R :: u32) \<Longrightarrow> ucast (ucast R :: u8) = R"
proof -
  assume "\<not> 255 < R"
  then have "R \<le> 255" by simp
  then have "unat R < 256" by (simp add: word_le_nat_alt)
  then have "take_bit 8 (unat R) = unat R" by (simp add: take_bit_nat_eq_self_iff)
  then show ?thesis
    by (simp add: word_eq_iff_unsigned [where ?'a = nat] unsigned_ucast_eq unsigned_take_bit_eq)
qed

lemma S25FL064L_Read_body_decreases:
  assumes "S25FL064L_Read_body p_Device buf off RemainingBytes s = Some (Inr (buf', off', Remaining', s'))"
    and "0 < Remaining'"
  shows "unat Remaining' < unat RemainingBytes"
proof -
  from assms have gt: "RemainingBytes > 255" and eq: "Remaining' = RemainingBytes - 255"
    by (auto simp: S25FL064L_Read_body_def Let_def ucast_u8_u32_small
             split: option.splits prod.splits if_splits)
  from gt have le: "(255 :: u32) \<le> RemainingBytes" by simp
  then have "unat (RemainingBytes - 255) = unat RemainingBytes - 255"
    by (simp add: unat_sub)
  moreover from gt have "255 < unat RemainingBytes"
    by (simp add: word_less_nat_alt)
  ultimately show ?thesis using eq by simp
qed

function S25FL064L_Read_loop ::
  "'s s25fl064_t \<Rightarrow> (nat \<Rightarrow> u8) \<Rightarrow> nat \<Rightarrow> u32 \<Rightarrow> 's \<Rightarrow> (s25fl064_error_t \<times> (nat \<Rightarrow> u8) \<times> 's) option"
where
  "S25FL064L_Read_loop p_Device buf off RemainingBytes s =
    (case S25FL064L_Read_body p_Device buf off RemainingBytes s of
       None \<Rightarrow> None
     | Some (Inl r) \<Rightarrow> Some r
     | Some (Inr (buf', off', Remaining', s')) \<Rightarrow>
         if Remaining' > 0
         then S25FL064L_Read_loop p_Device buf' off' Remaining' s'
         else (case p_CS p_Device of
                 None \<Rightarrow> None
               | Some cs \<Rightarrow> Some (S25FL064_NO_ERROR, buf', cs False s')))"
  by pat_completeness auto
termination
  by (relation "measure (\<lambda>(d, b, off, r, s). unat r)")
     (auto dest: S25FL064L_Read_body_decreases)

declare S25FL064L_Read_loop.simps [simp del]

definition S25FL064L_Read ::
  "'s s25fl064_t \<Rightarrow> u32 \<Rightarrow> (nat \<Rightarrow> u8) option \<Rightarrow> u32 \<Rightarrow> 's \<Rightarrow>
   (s25fl064_error_t \<times> (nat \<Rightarrow> u8) option \<times> 's) option"
where
  "S25FL064L_Read p_Device Start p_Buffer Length s =
    (case p_Buffer of
       None \<Rightarrow> Some (S25FL064_INVALID_PARAM, None, s)
     | Some buf \<Rightarrow>
        (let Tx_Buffer = address_frame (\<lambda>i. 0) S25FL064L_CMD_4READ Start in
         case p_CS p_Device of
           None \<Rightarrow> None
         | Some cs \<Rightarrow>
            (case p_RW p_Device of
               None \<Rightarrow> None
             | Some rw \<Rightarrow>
                (case rw (map Tx_Buffer [0..<5]) 0 (cs True s) of
                   (Error, _, s1) \<Rightarrow>
                     if Error \<noteq> S25FL064_NO_ERROR then Some (Error, Some buf, cs False s1)
                     else
                      (case S25FL064L_Read_loop p_Device buf 0 Length s1 of
                         None \<Rightarrow> None
                       | Some (Error, buf', s2) \<Rightarrow> Some (Error, Some buf', s2))))))"

section \<open>An instrumented transport\<close>

text \<open>
  To state what a driver function puts on the bus, the hardware state is instantiated
  with a bus that records every call of the four transport functions, in order, and
  the level of the chip-select line. The chip is any deterministic function from the
  history of the bus, the bytes sent and the receive length to a status and the bytes
  received. \<open>ChipSelect True\<close> is \<open>p_CS(true)\<close>, the selection of the device.
\<close>

datatype event =
    ChipSelect bool
  | Exchange "u8 list" nat s25fl064_error_t "u8 list"
  | HwReset
  | BusyTick

record bus =
  cs_line :: bool
  trace :: "event list"

type_synonym chip = "event list \<Rightarrow> u8 list \<Rightarrow> nat \<Rightarrow> s25fl064_error_t \<times> (nat \<Rightarrow> u8)"

definition bus_cs :: "bus s25fl06_cs_fptr_t" where
  "bus_cs Select s = \<lparr>cs_line = Select, trace = trace s @ [ChipSelect Select]\<rparr>"

definition bus_rw :: "chip \<Rightarrow> bus s25fl06_rw_fptr_t" where
  "bus_rw c tx n s =
    (case c (trace s) tx n of
       (Error, Rx) \<Rightarrow> (Error, Rx, s\<lparr>trace := trace s @ [Exchange tx n Error (map Rx [0..<n])]\<rparr>))"

definition bus_reset :: "bus s25fl06_reset_fptr_t" where
  "bus_reset s = s\<lparr>trace := trace s @ [HwReset]\<rparr>"

definition bus_busy :: "bus s25fl06_busy_fptr_t" where
  "bus_busy s = s\<lparr>trace := trace s @ [BusyTick]\<rparr>"

text \<open>
  A device object is on the bus of chip \<open>c\<close> when each of its function pointers is null or
  the corresponding bus function; it is wired when chip select and exchange are not null.
\<close>

definition on_bus :: "chip \<Rightarrow> bus s25fl064_t \<Rightarrow> bool" where
  "on_bus c d \<longleftrightarrow>
     (p_CS d = None \<or> p_CS d = Some bus_cs) \<and>
     (p_RW d = None \<or> p_RW d = Some (bus_rw c)) \<and>
     (p_Reset d = None \<or> p_Reset d = Some bus_reset) \<and>
     (p_Busy d = None \<or> p_Busy d = Some bus_busy)"

definition wired :: "chip \<Rightarrow> bus s25fl064_t \<Rightarrow> bool" where
  "wired c d \<longleftrightarrow> on_bus c d \<and> p_CS d = Some bus_cs \<and> p_RW d = Some (bus_rw c)"

text \<open>A device object wired to chip \<open>c\<close>, with every pointer set and every field cleared.\<close>

definition device :: "chip \<Rightarrow> bus s25fl064_t" where
  "device c = \<lparr>p_Reset = Some bus_reset, p_CS = Some bus_cs, p_RW = Some (bus_rw c),
     p_Busy = Some bus_busy, isInitialized = False, isPowerDown = False,
     isWriteProtect = False, isShortAddress = False, isQPI = False, MID = 0, DID = 0,
     UID = [], BlockSize = 0, Blocks = 0, Impedance = S25FL064_IMP_0\<rparr>"

definition idle_bus :: bus where
  "idle_bus = \<lparr>cs_line = False, trace = []\<rparr>"

text \<open>A chip that answers every exchange with success and the byte \<open>v\<close> at every offset.\<close>

definition const_bytes :: "u8 \<Rightarrow> nat \<Rightarrow> u8" where
  "const_bytes v i = v"

definition const_chip :: "u8 \<Rightarrow> chip" where
  "const_chip v = (\<lambda>h tx n. (S25FL064_NO_ERROR, const_bytes v))"

text \<open>A chip whose every exchange fails with the status \<open>e\<close>.\<close>

definition failing_chip :: "s25fl064_error_t \<Rightarrow> chip" where
  "failing_chip e = (\<lambda>h tx n. (e, const_bytes 0))"

text \<open>Buffers for concrete runs: all zero, and one whose byte 256 differs from the rest.\<close>

definition zero_bytes :: "nat \<Rightarrow> u8" where
  "zero_bytes i = 0"

definition marked_bytes :: "nat \<Rightarrow> u8" where
  "marked_bytes i = (if i = 256 then 0xAA else 0x11)"

section \<open>Observations on the bus trace\<close>

text \<open>
  The 32-bit address carried, most significant byte first, by the four bytes that follow
  the opcode of a command frame.
\<close>

definition be32 :: "u8 list \<Rightarrow> u32" where
  "be32 bs = push_bit 24 (ucast (bs ! 0)) OR push_bit 16 (ucast (bs ! 1))
             OR push_bit 8 (ucast (bs ! 2)) OR ucast (bs ! 3)"

text \<open>The four bytes of a 32-bit address, most significant byte first.\<close>

definition be_bytes :: "u32 \<Rightarrow> u8 list" where
  "be_bytes a = [ucast (drop_bit 24 a), ucast (drop_bit 16 a), ucast (drop_bit 8 a), ucast a]"

text \<open>
  A chip-select window is \<open>Fresh\<close> after the selection, \<open>Streaming\<close> after its first
  exchange (the command frame), and the line is \<open>Released\<close> otherwise.
\<close>

datatype phase = Released | Fresh | Streaming

text \<open>
  What the trace programs into the flash: for every chip-select window that opens with a
  five-byte page-program frame, the address of the frame and the bytes sent in the rest of
  the window, delivered when the window closes.
\<close>

fun page_programs :: "phase \<Rightarrow> (u32 \<times> u8 list) option \<Rightarrow> event list \<Rightarrow> (u32 \<times> u8 list) list" where
  "page_programs ph cur [] = []"
| "page_programs ph cur (ChipSelect True # es) = page_programs Fresh None es"
| "page_programs ph cur (ChipSelect False # es) =
     (case cur of
        None \<Rightarrow> page_programs Released None es
      | Some p \<Rightarrow> p # page_programs Released None es)"
| "page_programs ph cur (Exchange tx n e rx # es) =
     (case ph of
        Fresh \<Rightarrow>
          if length tx = 5 \<and> hd tx = S25FL064L_CMD_4PP
          then page_programs Streaming (Some (be32 (tl tx), [])) es
          else page_programs Streaming None es
      | Streaming \<Rightarrow> page_programs Streaming (map_option (\<lambda>(a, data). (a, data @ tx)) cur) es
      | Released \<Rightarrow> page_programs Released cur es)"
| "page_programs ph cur (HwReset # es) = page_programs ph cur es"
| "page_programs ph cur (BusyTick # es) = page_programs ph cur es"

definition written ::
  "(s25fl064_error_t \<times> bus) option \<Rightarrow> (s25fl064_error_t \<times> (u32 \<times> u8 list) list) option" where
  "written r = (case r of None \<Rightarrow> None
                | Some (e, s) \<Rightarrow> Some (e, page_programs Released None (trace s)))"

text \<open>Two calls of the write in a row, the second if the first returns success.\<close>

definition two_writes ::
  "bus s25fl064_t \<Rightarrow> u32 \<Rightarrow> (nat \<Rightarrow> u8) option \<Rightarrow> u32 \<Rightarrow> u32 \<Rightarrow> (nat \<Rightarrow> u8) option \<Rightarrow> u32 \<Rightarrow>
   (nat \<Rightarrow> u8) \<Rightarrow> bus \<Rightarrow> (s25fl064_error_t \<times> bus) option" where
  "two_writes d A1 b1 L1 A2 b2 L2 Tx_Buffer s =
     (case S25FL064L_Write d A1 b1 L1 Tx_Buffer s of
        None \<Rightarrow> None
      | Some (e, s1) \<Rightarrow>
          if e \<noteq> S25FL064_NO_ERROR then Some (e, s1)
          else S25FL064L_Write d A2 b2 L2 Tx_Buffer s1)"

text \<open>
  The write-enable discipline as a monitor of the trace. After a successful write-enable
  command the monitor is \<open>Armed\<close>; a successful read of status register 1 right after it
  makes it \<open>Checked\<close> when the write-enable latch (bit 1 of the second byte received) reads
  set and \<open>Denied\<close> when it reads clear. A page program is allowed only when \<open>Checked\<close>, a
  sector or chip erase only when \<open>Armed\<close>; once \<open>Denied\<close>, any further command is a
  violation. Every other command, and a hardware reset, returns the monitor to \<open>Idle\<close>.
\<close>

datatype guard = Idle | Armed | Checked | Denied | Violated

definition command_guard :: "guard \<Rightarrow> u8 list \<Rightarrow> s25fl064_error_t \<Rightarrow> u8 list \<Rightarrow> guard" where
  "command_guard g tx e rx =
     (if g = Violated \<or> g = Denied then Violated
      else case tx of
        [] \<Rightarrow> Idle
      | opcode # _ \<Rightarrow>
          if opcode = S25FL064L_CMD_WREN then (if e = S25FL064_NO_ERROR then Armed else Idle)
          else if opcode = S25FL064L_CMD_RDSR1 then
            (if g = Armed \<and> e = S25FL064_NO_ERROR \<and> 1 < length rx
             then (if bit (rx ! 1) S25FL064L_BIT_WEL then Checked else Denied)
             else Idle)
          else if opcode = S25FL064L_CMD_4PP then (if g = Checked then Idle else Violated)
          else if opcode = S25FL064L_CMD_SE \<or> opcode = S25FL064L_CMD_CE
          then (if g = Armed then Idle else Violated)
          else Idle)"

fun step :: "event \<Rightarrow> phase \<times> guard \<Rightarrow> phase \<times> guard" where
  "step (ChipSelect True) (ph, g) = (Fresh, g)"
| "step (ChipSelect False) (ph, g) = (Released, g)"
| "step (Exchange tx n e rx) (ph, g) =
     (case ph of
        Fresh \<Rightarrow> (Streaming, command_guard g tx e rx)
      | Streaming \<Rightarrow> (Streaming, g)
      | Released \<Rightarrow> (Released, g))"
| "step HwReset (ph, g) = (ph, if g = Violated \<or> g = Denied then g else Idle)"
| "step BusyTick (ph, g) = (ph, g)"

definition monitor :: "event list \<Rightarrow> phase \<times> guard" where
  "monitor es = fold step es (Released, Idle)"

definition guard_of :: "bus \<Rightarrow> guard" where
  "guard_of s = snd (monitor (trace s))"

text \<open>The receive length of an exchange.\<close>

fun rx_length :: "event \<Rightarrow> nat" where
  "rx_length (Exchange tx n e rx) = n"
| "rx_length _ = 0"

text \<open>A receive-only exchange of at least one and at most \<open>m\<close> bytes.\<close>

fun receive_chunk :: "nat \<Rightarrow> event \<Rightarrow> bool" where
  "receive_chunk m (Exchange tx n e rx) \<longleftrightarrow> tx = [] \<and> 0 < n \<and> n \<le> m"
| "receive_chunk m _ \<longleftrightarrow> False"

text \<open>
  The fields of the device object that only the last step of the initialisation writes,
  and the four function pointers, are the same in both objects.
\<close>

definition keeps_config :: "'s s25fl064_t \<Rightarrow> 's s25fl064_t \<Rightarrow> bool" where
  "keeps_config d d' \<longleftrightarrow>
     p_Reset d' = p_Reset d \<and> p_CS d' = p_CS d \<and> p_RW d' = p_RW d \<and> p_Busy d' = p_Busy d \<and>
     isWriteProtect d' = isWriteProtect d \<and> isShortAddress d' = isShortAddress d \<and>
     isQPI d' = isQPI d \<and> BlockSize d' = BlockSize d \<and> Blocks d' = Blocks d \<and>
     Impedance d' = Impedance d"

text \<open>Two device objects with the same chip-select, exchange and busy pointers.\<close>

definition same_transport :: "'s s25fl064_t \<Rightarrow> 's s25fl064_t \<Rightarrow> bool" where
  "same_transport d d' \<longleftrightarrow> p_CS d' = p_CS d \<and> p_RW d' = p_RW d \<and> p_Busy d' = p_Busy d"

section \<open>Evaluation on concrete inputs\<close>

lemmas driver_defs =
  S25FL064L_Init_def S25FL064L_LeavePowerDown_def S25FL064L_EnterPowerDown_def
  S25FL064L_Command_def S25FL064L_Reset_def S25FL064L_ReadID_def S25FL064L_ReadUID_def
  S25FL064L_ReadJEDEC_def S25FL064L_GetError_def S25FL064L_EraseSector_def
  S25FL064L_EraseChip_def S25FL064L_Write_def S25FL064L_Write_body_def
  S25FL064L_Read_def S25FL064L_Read_body_def
  logical_or_result_def imp_of_def address_frame_def store_def offset_bytes_def Let_def

lemmas bus_defs =
  device_def const_chip_def failing_chip_def idle_bus_def
  bus_cs_def bus_rw_def bus_reset_def bus_busy_def zero_bytes_def marked_bytes_def
  const_bytes_def

lemmas eval_simps =
  driver_defs bus_defs S25FL064L_WaitBusy.simps S25FL064L_Write_loop.simps
  S25FL064L_Read_loop.simps word_le_nat_alt word_less_nat_alt

lemma map_upt_0_numeral:
  "map f [0..<numeral n] = map f [0..<pred_numeral n] @ [f (pred_numeral n)]"
proof -
  have "[0..<numeral n] = [0..<Suc (pred_numeral n)]" by (simp only: numeral_eq_Suc)
  then show ?thesis by simp
qed

section \<open>What the initialisation leaves in the device object\<close>

lemma keeps_config_refl: "keeps_config d d"
  by (simp add: keeps_config_def)

lemma S25FL064L_Command_Inl_error:
  "S25FL064L_Command d cmd nul n s = Inl (e, s') \<Longrightarrow> e \<noteq> S25FL064_NO_ERROR"
  by (auto simp: S25FL064L_Command_def split: option.splits prod.splits if_splits)

lemma S25FL064L_LeavePowerDown_fields:
  assumes "S25FL064L_LeavePowerDown d s = Some (e, d', s')"
  shows "keeps_config d d' \<and> isInitialized d' = isInitialized d
         \<and> (e = S25FL064_NO_ERROR \<longrightarrow> \<not> isPowerDown d')"
  using assms
  by (auto simp: S25FL064L_LeavePowerDown_def keeps_config_def dest: S25FL064L_Command_Inl_error
           split: sum.splits option.splits prod.splits if_splits)

lemma S25FL064L_Reset_fields:
  assumes "S25FL064L_Reset d s = (e, d', s')"
  shows "keeps_config d d' \<and> (isInitialized d' \<longrightarrow> isInitialized d)"
  using assms
  by (auto simp: S25FL064L_Reset_def keeps_config_def split: option.splits)

lemma S25FL064L_ReadID_fields:
  assumes "S25FL064L_ReadID d s = (e, d', s')"
  shows "keeps_config d d' \<and> isInitialized d' = isInitialized d"
  using assms
  by (auto simp: S25FL064L_ReadID_def keeps_config_def split: sum.splits prod.splits)

lemma S25FL064L_ReadUID_fields:
  assumes "S25FL064L_ReadUID d s = (e, d', s')"
  shows "keeps_config d d' \<and> isInitialized d' = isInitialized d"
  using assms
  by (auto simp: S25FL064L_ReadUID_def keeps_config_def split: option.splits prod.splits if_splits)

lemma S25FL064L_Init_error_fields:
  assumes "S25FL064L_Init d s = Some (e, d', s')" and "e \<noteq> S25FL064_NO_ERROR"
  shows "keeps_config d d' \<and> \<not> isInitialized d'"
proof -
  let ?d0 = "d\<lparr>isInitialized := False\<rparr>"
  have k0: "keeps_config d ?d0" by (simp add: keeps_config_def)
  from assms(1) obtain e1 d1 s1 where lp: "S25FL064L_LeavePowerDown ?d0 s = Some (e1, d1, s1)"
    by (auto simp: S25FL064L_Init_def split: option.splits)
  from S25FL064L_LeavePowerDown_fields [OF lp]
  have k1: "keeps_config ?d0 d1" and i1: "\<not> isInitialized d1"
    by simp_all
  obtain e2 d2 s2 where rs: "S25FL064L_Reset d1 s1 = (e2, d2, s2)"
    by (cases "S25FL064L_Reset d1 s1")
  from S25FL064L_Reset_fields [OF rs] i1
  have k2: "keeps_config d1 d2" and i2: "\<not> isInitialized d2" by auto
  obtain e3 d3 s3 where id: "S25FL064L_ReadID d2 s2 = (e3, d3, s3)"
    by (cases "S25FL064L_ReadID d2 s2")
  from S25FL064L_ReadID_fields [OF id] i2
  have k3: "keeps_config d2 d3" and i3: "\<not> isInitialized d3" by auto
  obtain e4 d4 s4 where ui: "S25FL064L_ReadUID d3 s3 = (e4, d4, s4)"
    by (cases "S25FL064L_ReadUID d3 s3")
  from S25FL064L_ReadUID_fields [OF ui] i3
  have k4: "keeps_config d3 d4" and i4: "\<not> isInitialized d4" by auto
  have "d' = d1 \<or> d' = d2 \<or> d' = d3 \<or> d' = d4"
    using assms lp rs id ui
    by (auto simp: S25FL064L_Init_def logical_or_result_def
             split: sum.splits prod.splits if_splits)
  then show ?thesis
    using k0 k1 k2 k3 k4 i1 i2 i3 i4 by (auto simp: keeps_config_def)
qed

lemma S25FL064L_Init_success_fields:
  assumes "S25FL064L_Init d s = Some (S25FL064_NO_ERROR, d', s')"
  shows "isInitialized d' \<and> \<not> isPowerDown d' \<and> \<not> isWriteProtect d' \<and> \<not> isShortAddress d'
         \<and> BlockSize d' = S25FL064L_SECTOR_SIZE \<and> Blocks d' = S25FL064L_SECTOR_COUNT"
  using assms
  by (auto simp: S25FL064L_Init_def logical_or_result_def dest: S25FL064L_Command_Inl_error
           split: option.splits sum.splits prod.splits if_splits)

text \<open>
  C4. With a configuration register whose address-length bit (bit 0) reads clear, here
  the register value 0, a successful initialisation leaves \<open>isShortAddress\<close> false: the
  object says extended addressing where the bit says three-byte addressing.
\<close>

theorem S25FL064L_Init_address_mode_bit_clear:
  "S25FL064L_Init (device (const_chip 0)) idle_bus
   = Some (S25FL064_NO_ERROR,
       (device (const_chip 0))\<lparr>isInitialized := True, isShortAddress := False,
          UID := [0, 0, 0, 0, 0, 0, 0, 0], BlockSize := 4096, Blocks := 2048\<rparr>,
       \<lparr>cs_line = False, trace =
         [ChipSelect True, Exchange [S25FL064L_CMD_RES] 0 S25FL064_NO_ERROR [], ChipSelect False,
          ChipSelect True, Exchange [S25FL064L_CMD_RDSR1] 2 S25FL064_NO_ERROR [0, 0], ChipSelect False,
          BusyTick, HwReset,
          ChipSelect True, Exchange [S25FL064L_CMD_RDID] 4 S25FL064_NO_ERROR [0, 0, 0, 0], ChipSelect False,
          ChipSelect True, Exchange [S25FL064L_CMD_RUID] 5 S25FL064_NO_ERROR [0, 0, 0, 0, 0],
          Exchange [] 8 S25FL064_NO_ERROR [0, 0, 0, 0, 0, 0, 0, 0], ChipSelect False,
          ChipSelect True, Exchange [S25FL064L_CMD_RSFDP, 0, 0, 0, 0] 5 S25FL064_NO_ERROR [0, 0, 0, 0, 0],
          Exchange [] 24 S25FL064_NO_ERROR
            [0, 0, 0, 0, 0, 0, 0, 0, 0, 0, 0, 0, 0, 0, 0, 0, 0, 0, 0, 0, 0, 0, 0, 0],
          ChipSelect False,
          ChipSelect True, Exchange [S25FL064L_CMD_RDCR2] 2 S25FL064_NO_ERROR [0, 0], ChipSelect False]\<rparr>)"
  by (simp add: driver_defs bus_defs S25FL064L_WaitBusy.simps map_upt_0_numeral)

text \<open>
  C5, as amended. When the initialisation returns an error, \<open>isInitialized\<close> is false in
  the device object (it is cleared on entry) and the function pointers, \<open>isWriteProtect\<close>,
  \<open>isShortAddress\<close>, \<open>isQPI\<close>, \<open>Impedance\<close>, \<open>BlockSize\<close> and \<open>Blocks\<close> are as before
  the call. When it returns success, \<open>isInitialized\<close> is true and \<open>isPowerDown\<close> and
  \<open>isWriteProtect\<close> are false.
\<close>

theorem S25FL064L_Init_flags:
  assumes "S25FL064L_Init d s = Some (e, d', s')"
  shows "(e \<noteq> S25FL064_NO_ERROR \<longrightarrow> \<not> isInitialized d' \<and> keeps_config d d') \<and>
         (e = S25FL064_NO_ERROR \<longrightarrow> isInitialized d' \<and> \<not> isPowerDown d' \<and> \<not> isWriteProtect d')"
  using S25FL064L_Init_error_fields [OF assms] S25FL064L_Init_success_fields [of d s d' s'] assms
  by auto

text \<open>
  A failing first exchange on an object that was initialised: the call returns the error
  and the object has changed, \<open>isInitialized\<close> is now false.
\<close>

theorem S25FL064L_Init_failure_clears_flag:
  "S25FL064L_Init ((device (failing_chip S25FL064_INVALID_PARAM))\<lparr>isInitialized := True\<rparr>) idle_bus
   = Some (S25FL064_INVALID_PARAM,
       (device (failing_chip S25FL064_INVALID_PARAM))\<lparr>isInitialized := False\<rparr>,
       \<lparr>cs_line = False, trace =
         [ChipSelect True, Exchange [S25FL064L_CMD_RES] 0 S25FL064_INVALID_PARAM [], ChipSelect False]\<rparr>)
   \<and> (device (failing_chip S25FL064_INVALID_PARAM))\<lparr>isInitialized := False\<rparr>
     \<noteq> (device (failing_chip S25FL064_INVALID_PARAM))\<lparr>isInitialized := True\<rparr>"
proof -
  have "isInitialized ((device (failing_chip S25FL064_INVALID_PARAM))\<lparr>isInitialized := False\<rparr>)
        \<noteq> isInitialized ((device (failing_chip S25FL064_INVALID_PARAM))\<lparr>isInitialized := True\<rparr>)"
    by simp
  then have "(device (failing_chip S25FL064_INVALID_PARAM))\<lparr>isInitialized := False\<rparr>
     \<noteq> (device (failing_chip S25FL064_INVALID_PARAM))\<lparr>isInitialized := True\<rparr>"
    by metis
  then show ?thesis
    by (simp add: driver_defs bus_defs)
qed

theorem S25FL064L_Init_flags_witness:
  "S25FL064L_Init (device (failing_chip S25FL064_WRITE_PROTECTED)) idle_bus
   = Some (S25FL064_WRITE_PROTECTED, device (failing_chip S25FL064_WRITE_PROTECTED),
       \<lparr>cs_line = False, trace =
         [ChipSelect True, Exchange [S25FL064L_CMD_RES] 0 S25FL064_WRITE_PROTECTED [], ChipSelect False]\<rparr>)
   \<and> \<not> isInitialized (device (failing_chip S25FL064_WRITE_PROTECTED))
   \<and> keeps_config (device (failing_chip S25FL064_WRITE_PROTECTED))
        (device (failing_chip S25FL064_WRITE_PROTECTED))"
proof -
  have run: "S25FL064L_Init (device (failing_chip S25FL064_WRITE_PROTECTED)) idle_bus
   = Some (S25FL064_WRITE_PROTECTED, device (failing_chip S25FL064_WRITE_PROTECTED),
       \<lparr>cs_line = False, trace =
         [ChipSelect True, Exchange [S25FL064L_CMD_RES] 0 S25FL064_WRITE_PROTECTED [], ChipSelect False]\<rparr>)"
    by (simp add: driver_defs bus_defs)
  show ?thesis using run S25FL064L_Init_flags [OF run] by simp
qed

text \<open>
  C6, as amended. The initialisation does not compare the device ID it has read with
  \<open>S25FL064L_DEVICE_ID\<close>: when it returns success with another ID in \<open>DID\<close>, the object
  is initialised all the same and carries the block size 4096 and the block count 2048.
\<close>

theorem S25FL064L_Init_ignores_device_id:
  assumes "S25FL064L_Init d s = Some (S25FL064_NO_ERROR, d', s')"
    and "DID d' \<noteq> S25FL064L_DEVICE_ID"
  shows "isInitialized d' \<and> BlockSize d' = S25FL064L_SECTOR_SIZE \<and> Blocks d' = S25FL064L_SECTOR_COUNT"
  using S25FL064L_Init_success_fields [OF assms(1)] by simp

text \<open>
  A chip that answers 0x60 to everything has the device ID 0x6060: the initialisation
  succeeds, sets \<open>isInitialized\<close> and writes the block size and count.
\<close>

theorem S25FL064L_Init_wrong_device_id:
  "S25FL064L_Init (device (const_chip 0x60)) idle_bus
   = Some (S25FL064_NO_ERROR,
       (device (const_chip 0x60))\<lparr>isInitialized := True, MID := 0x60, DID := 0x6060,
          UID := [0x60, 0x60, 0x60, 0x60, 0x60, 0x60, 0x60, 0x60], BlockSize := 4096, Blocks := 2048,
          Impedance := S25FL064_IMP_3\<rparr>,
       \<lparr>cs_line = False, trace =
         [ChipSelect True, Exchange [S25FL064L_CMD_RES] 0 S25FL064_NO_ERROR [], ChipSelect False,
          ChipSelect True, Exchange [S25FL064L_CMD_RDSR1] 2 S25FL064_NO_ERROR [0x60, 0x60], ChipSelect False,
          BusyTick, HwReset,
          ChipSelect True, Exchange [S25FL064L_CMD_RDID] 4 S25FL064_NO_ERROR [0x60, 0x60, 0x60, 0x60],
          ChipSelect False,
          ChipSelect True, Exchange [S25FL064L_CMD_RUID] 5 S25FL064_NO_ERROR [0x60, 0x60, 0x60, 0x60, 0x60],
          Exchange [] 8 S25FL064_NO_ERROR [0x60, 0x60, 0x60, 0x60, 0x60, 0x60, 0x60, 0x60], ChipSelect False,
          ChipSelect True,
          Exchange [S25FL064L_CMD_RSFDP, 0, 0, 0, 0] 5 S25FL064_NO_ERROR [0x60, 0x60, 0x60, 0x60, 0x60],
          Exchange [] 24 S25FL064_NO_ERROR ([0x60, 0x60, 0x60, 0x60, 0x60, 0x60, 0x60, 0x60] @ [0x60, 0x60, 0x60, 0x60, 0x60, 0x60, 0x60, 0x60] @ [0x60, 0x60, 0x60, 0x60, 0x60, 0x60, 0x60, 0x60]),
          ChipSelect False,
          ChipSelect True, Exchange [S25FL064L_CMD_RDCR2] 2 S25FL064_NO_ERROR [0x60, 0x60], ChipSelect False]\<rparr>)
   \<and> (0x6060 :: u16) \<noteq> S25FL064L_DEVICE_ID"
  by (simp add: driver_defs bus_defs S25FL064L_WaitBusy.simps map_upt_0_numeral)

theorem S25FL064L_Init_ignores_device_id_witness:
  "(\<exists>d' s'. S25FL064L_Init (device (const_chip 0x60)) idle_bus = Some (S25FL064_NO_ERROR, d', s')
     \<and> DID d' \<noteq> S25FL064L_DEVICE_ID
     \<and> isInitialized d' \<and> BlockSize d' = S25FL064L_SECTOR_SIZE \<and> Blocks d' = S25FL064L_SECTOR_COUNT)"
proof -
  obtain d' s' where run: "S25FL064L_Init (device (const_chip 0x60)) idle_bus = Some (S25FL064_NO_ERROR, d', s')"
    and did: "DID d' = 0x6060"
    by (simp add: driver_defs bus_defs S25FL064L_WaitBusy.simps map_upt_0_numeral)
  from did have ne: "DID d' \<noteq> S25FL064L_DEVICE_ID" by simp
  from run ne S25FL064L_Init_ignores_device_id [OF run ne] show ?thesis by blast
qed

section \<open>The driver on the instrumented bus\<close>

lemma wired_pointers: "wired c d \<Longrightarrow> p_CS d = Some bus_cs \<and> p_RW d = Some (bus_rw c)"
  by (simp add: wired_def)

lemma wired_device: "wired c (device c)"
  by (simp add: wired_def on_bus_def device_def)

lemma S25FL064L_Command_wired:
  assumes "wired c d" and "\<not> (nul \<and> 0 < n)"
  shows "S25FL064L_Command d cmd nul n s =
     (case c (trace s @ [ChipSelect True]) cmd n of
        (e, Rx) \<Rightarrow>
          if e \<noteq> S25FL064_NO_ERROR
          then Inl (e, \<lparr>cs_line = False, trace = trace s @
                 [ChipSelect True, Exchange cmd n e (map Rx [0..<n]), ChipSelect False]\<rparr>)
          else Inr (Rx, \<lparr>cs_line = False, trace = trace s @
                 [ChipSelect True, Exchange cmd n S25FL064_NO_ERROR (map Rx [0..<n]), ChipSelect False]\<rparr>))"
  using assms wired_pointers [OF assms(1)]
  by (auto simp: S25FL064L_Command_def bus_cs_def bus_rw_def split: prod.splits)

section \<open>The error flags of status register 2\<close>

lemma bit_3_u8: "bit (3 :: u8) k \<longleftrightarrow> k < 2"
proof -
  have m: "(mask 2 :: u8) = 3" by (simp add: mask_eq_exp_minus_1)
  have "bit (mask 2 :: u8) k \<longleftrightarrow> k < 2" by (auto simp add: bit_mask_iff)
  then show ?thesis unfolding m .
qed

lemma bit_3_int: "bit (3 :: int) k \<longleftrightarrow> k < 2"
proof -
  have m: "(mask 2 :: int) = 3" by (simp add: mask_eq_exp_minus_1)
  have "bit (mask 2 :: int) k \<longleftrightarrow> k < 2" by (auto simp add: bit_mask_iff)
  then show ?thesis unfolding m .
qed

lemma error_bits:
  "bit (drop_bit 5 (r AND 0x60) :: u8) n \<longleftrightarrow> (n = 0 \<and> bit r 5) \<or> (n = 1 \<and> bit r 6)"
proof -
  have "n < 2 \<longleftrightarrow> n = 0 \<or> n = 1" by auto
  then show ?thesis
    by (auto simp: bit_drop_bit_eq bit_and_iff bit_3_u8 bit_3_int)
qed

lemma and_mask_bit0: "(p :: u8) AND push_bit 0 1 \<noteq> 0 \<longleftrightarrow> bit p 0"
  by (simp add: and_one_eq bit_0 mod_2_eq_odd)

lemma and_mask_bit1: "(p :: u8) AND push_bit 1 1 \<noteq> 0 \<longleftrightarrow> bit p 1"
proof -
  have "p AND push_bit 1 1 = 0 \<longleftrightarrow> \<not> bit p 1"
    by (metis and_exp_eq_0_iff_not_bit push_bit_of_1)
  then show ?thesis by simp
qed

text \<open>
  C9, as amended. When the read of status register 2 succeeds with the register value
  \<open>Rx 1\<close>, the error byte has exactly two bits: bit 0, the bit of
  \<open>S25FL064L_MASK_PROG_ERROR\<close>, is bit 5 of the register, and bit 1, the bit of
  \<open>S25FL064L_MASK_ERASE_ERROR\<close>, is bit 6 of the register. The clear-status command is the
  last transaction, and its status is the result of the call.
\<close>

theorem S25FL064L_GetError_flags:
  assumes "wired c d"
    and "c (trace s @ [ChipSelect True]) [S25FL064L_CMD_RDSR2] 2 = (S25FL064_NO_ERROR, Rx)"
    and "S25FL064L_GetError d p s = (e, p', s')"
  shows "(\<forall>n. bit p' n \<longleftrightarrow> (n = 0 \<and> bit (Rx 1) 5) \<or> (n = 1 \<and> bit (Rx 1) 6)) \<and>
         (p' AND S25FL064L_MASK_PROG_ERROR \<noteq> 0 \<longleftrightarrow> bit (Rx 1) 5) \<and>
         (p' AND S25FL064L_MASK_ERASE_ERROR \<noteq> 0 \<longleftrightarrow> bit (Rx 1) 6) \<and>
         trace s' = trace s @
           [ChipSelect True, Exchange [S25FL064L_CMD_RDSR2] 2 S25FL064_NO_ERROR [Rx 0, Rx 1], ChipSelect False,
            ChipSelect True, Exchange [S25FL064L_CMD_CLSR] 0 e [], ChipSelect False]"
proof -
  let ?s1 = "\<lparr>cs_line = False, trace = trace s @
       [ChipSelect True, Exchange [S25FL064L_CMD_RDSR2] 2 S25FL064_NO_ERROR (map Rx [0..<2]), ChipSelect False]\<rparr>"
  have c1: "S25FL064L_Command d [S25FL064L_CMD_RDSR2] False 2 s = Inr (Rx, ?s1)"
    using assms(2) by (simp add: S25FL064L_Command_wired [OF assms(1)])
  have p': "p' = drop_bit 5 (Rx 1 AND 0x60)"
    using assms(3) c1 by (auto simp: S25FL064L_GetError_def split: sum.splits prod.splits)
  have tr: "trace s' = trace ?s1 @ [ChipSelect True, Exchange [S25FL064L_CMD_CLSR] 0 e [], ChipSelect False]"
    using assms(3) c1
    by (auto simp: S25FL064L_GetError_def S25FL064L_Command_wired [OF assms(1)]
             split: sum.splits prod.splits if_splits)
  have b: "bit p' n \<longleftrightarrow> (n = 0 \<and> bit (Rx 1) 5) \<or> (n = 1 \<and> bit (Rx 1) 6)" for n
    unfolding p' by (rule error_bits)
  have m0: "p' AND S25FL064L_MASK_PROG_ERROR \<noteq> 0 \<longleftrightarrow> bit (Rx 1) 5"
    using b [of 0] and_mask_bit0 [of p'] by simp
  have m1: "p' AND S25FL064L_MASK_ERASE_ERROR \<noteq> 0 \<longleftrightarrow> bit (Rx 1) 6"
    using b [of 1] and_mask_bit1 [of p'] by simp
  have t: "trace s' = trace s @
           [ChipSelect True, Exchange [S25FL064L_CMD_RDSR2] 2 S25FL064_NO_ERROR [Rx 0, Rx 1], ChipSelect False,
            ChipSelect True, Exchange [S25FL064L_CMD_CLSR] 0 e [], ChipSelect False]"
    using tr by (simp add: map_upt_0_numeral)
  from b m0 m1 t show ?thesis by blast
qed

text \<open>
  A register value 0x40, bit 6 alone: the error byte is 2, so the bit of
  \<open>S25FL064L_MASK_PROG_ERROR\<close> is clear and the bit of \<open>S25FL064L_MASK_ERASE_ERROR\<close> is set.
\<close>

theorem S25FL064L_GetError_register_bit_6:
  "S25FL064L_GetError (device (const_chip 0x40)) 0 idle_bus
   = (S25FL064_NO_ERROR, 2, \<lparr>cs_line = False, trace =
        [ChipSelect True, Exchange [S25FL064L_CMD_RDSR2] 2 S25FL064_NO_ERROR [0x40, 0x40], ChipSelect False,
         ChipSelect True, Exchange [S25FL064L_CMD_CLSR] 0 S25FL064_NO_ERROR [], ChipSelect False]\<rparr>)
   \<and> bit (0x40 :: u8) 6
   \<and> (2 :: u8) AND S25FL064L_MASK_PROG_ERROR = 0
   \<and> (2 :: u8) AND S25FL064L_MASK_ERASE_ERROR \<noteq> 0"
  by (simp add: driver_defs bus_defs map_upt_0_numeral)

theorem S25FL064L_GetError_flags_witness:
  "wired (const_chip 0x20) (device (const_chip 0x20))
   \<and> const_chip 0x20 (trace idle_bus @ [ChipSelect True]) [S25FL064L_CMD_RDSR2] 2
       = (S25FL064_NO_ERROR, const_bytes 0x20)
   \<and> S25FL064L_GetError (device (const_chip 0x20)) 0 idle_bus
       = (S25FL064_NO_ERROR, 1, \<lparr>cs_line = False, trace =
            [ChipSelect True, Exchange [S25FL064L_CMD_RDSR2] 2 S25FL064_NO_ERROR [0x20, 0x20], ChipSelect False,
             ChipSelect True, Exchange [S25FL064L_CMD_CLSR] 0 S25FL064_NO_ERROR [], ChipSelect False]\<rparr>)
   \<and> ((1 :: u8) AND S25FL064L_MASK_PROG_ERROR \<noteq> 0 \<longleftrightarrow> bit (const_bytes 0x20 1) 5)
   \<and> ((1 :: u8) AND S25FL064L_MASK_ERASE_ERROR \<noteq> 0 \<longleftrightarrow> bit (const_bytes 0x20 1) 6)"
proof -
  have w: "wired (const_chip 0x20) (device (const_chip 0x20))"
    by (rule wired_device)
  have r: "const_chip 0x20 (trace idle_bus @ [ChipSelect True]) [S25FL064L_CMD_RDSR2] 2
       = (S25FL064_NO_ERROR, const_bytes 0x20)"
    by (simp add: const_chip_def)
  have g: "S25FL064L_GetError (device (const_chip 0x20)) 0 idle_bus
       = (S25FL064_NO_ERROR, 1, \<lparr>cs_line = False, trace =
            [ChipSelect True, Exchange [S25FL064L_CMD_RDSR2] 2 S25FL064_NO_ERROR [0x20, 0x20], ChipSelect False,
             ChipSelect True, Exchange [S25FL064L_CMD_CLSR] 0 S25FL064_NO_ERROR [], ChipSelect False]\<rparr>)"
    by (simp add: driver_defs bus_defs map_upt_0_numeral)
  from S25FL064L_GetError_flags [OF w r g] w r g show ?thesis by blast
qed

text \<open>
  C7, as amended. With a null buffer the write returns \<open>S25FL064_INVALID_PARAM\<close> and
  leaves the hardware untouched, whatever the address and the length.
\<close>

theorem S25FL064L_Write_null_buffer:
  "S25FL064L_Write d Address None Length Tx_Buffer s = Some (S25FL064_INVALID_PARAM, s)"
  by (simp add: S25FL064L_Write_def)

text \<open>
  A write of one byte at address 0 is not refused: it programs the byte.
\<close>

theorem S25FL064L_Write_address_zero:
  "S25FL064L_Write (device (const_chip 0x02)) 0 (Some zero_bytes) 1 zero_bytes idle_bus
   = Some (S25FL064_NO_ERROR, \<lparr>cs_line = False, trace =
       [ChipSelect True, Exchange [S25FL064L_CMD_WREN] 0 S25FL064_NO_ERROR [], ChipSelect False,
        ChipSelect True, Exchange [S25FL064L_CMD_RDSR1, 0, 0, 0, 0] 2 S25FL064_NO_ERROR [0x02, 0x02],
        ChipSelect False,
        ChipSelect True, Exchange [S25FL064L_CMD_4PP, 0, 0, 0, 0] 0 S25FL064_NO_ERROR [],
        Exchange [0] 0 S25FL064_NO_ERROR [], ChipSelect False,
        ChipSelect True, Exchange [S25FL064L_CMD_RDSR1] 2 S25FL064_NO_ERROR [0x02, 0x02], ChipSelect False,
        BusyTick, ChipSelect False,
        ChipSelect True, Exchange [S25FL064L_CMD_RDSR1] 2 S25FL064_NO_ERROR [0x02, 0x02], ChipSelect False,
        BusyTick]\<rparr>)"
  by (simp add: eval_simps map_upt_0_numeral)

section \<open>The driver functions depend on the device object only through its transport\<close>

lemma same_transport_sym: "same_transport d d' \<Longrightarrow> same_transport d' d"
  by (simp add: same_transport_def)

lemma S25FL064L_Command_transport:
  assumes "same_transport d d'"
  shows "S25FL064L_Command d' cmd nul n s = S25FL064L_Command d cmd nul n s"
proof -
  from assms have e: "p_CS d' = p_CS d" "p_RW d' = p_RW d" by (simp_all add: same_transport_def)
  show ?thesis unfolding S25FL064L_Command_def e by (rule refl)
qed

lemma S25FL064L_WaitBusy_transport_Some:
  assumes run: "S25FL064L_WaitBusy d s = Some r" and st: "same_transport d d'"
  shows "S25FL064L_WaitBusy d' s = Some r"
proof -
  have "same_transport d d' \<longrightarrow> S25FL064L_WaitBusy d' s = Some r"
  proof (rule S25FL064L_WaitBusy.raw_induct
      [where P = "\<lambda>d s r. same_transport d d' \<longrightarrow> S25FL064L_WaitBusy d' s = Some r", OF _ run],
      goal_cases)
    case (1 W dv sv rv)
    show ?case
    proof
      assume t: "same_transport dv d'"
      then have pb: "p_Busy d' = p_Busy dv" by (simp add: same_transport_def)
      show "S25FL064L_WaitBusy d' sv = Some rv"
        using 1 t
        by (cases rv, subst S25FL064L_WaitBusy.simps)
           (auto simp: S25FL064L_Command_transport [OF t] pb Let_def
                 split: sum.splits prod.splits option.splits if_splits)
    qed
  qed
  with st show ?thesis by simp
qed

lemma S25FL064L_WaitBusy_transport:
  assumes "same_transport d d'"
  shows "S25FL064L_WaitBusy d' s = S25FL064L_WaitBusy d s"
proof (cases "S25FL064L_WaitBusy d s")
  case None
  show ?thesis
  proof (cases "S25FL064L_WaitBusy d' s")
    case None
    with \<open>S25FL064L_WaitBusy d s = None\<close> show ?thesis by simp
  next
    case (Some r)
    from S25FL064L_WaitBusy_transport_Some [OF Some same_transport_sym [OF assms]]
    have "S25FL064L_WaitBusy d s = Some r" .
    with None show ?thesis by simp
  qed
next
  case (Some r)
  from S25FL064L_WaitBusy_transport_Some [OF Some assms] show ?thesis using Some by simp
qed

lemma S25FL064L_Write_body_transport:
  assumes "same_transport d d'"
  shows "S25FL064L_Write_body d' b tx tmp a r s = S25FL064L_Write_body d b tx tmp a r s"
proof -
  from assms have e: "p_CS d' = p_CS d" "p_RW d' = p_RW d" by (simp_all add: same_transport_def)
  show ?thesis
    unfolding S25FL064L_Write_body_def S25FL064L_Command_transport [OF assms]
      S25FL064L_WaitBusy_transport [OF assms] e
    by (rule refl)
qed

lemma S25FL064L_Write_loop_transport:
  assumes "same_transport d d'"
  shows "S25FL064L_Write_loop d' buf tx tmp adr rem s = S25FL064L_Write_loop d buf tx tmp adr rem s"
  using assms
proof (induction d buf tx tmp adr rem s rule: S25FL064L_Write_loop.induct)
  case (1 d buf tx tmp adr rem s)
  note st = \<open>same_transport d d'\<close>
  from 1 show ?case
    by (auto simp: S25FL064L_Write_loop.simps [of d' buf tx tmp adr rem s]
          S25FL064L_Write_loop.simps [of d buf tx tmp adr rem s]
          S25FL064L_Write_body_transport [OF st] S25FL064L_WaitBusy_transport [OF st]
        split: option.splits sum.splits prod.splits)
qed

lemma S25FL064L_Read_body_transport:
  assumes "same_transport d d'"
  shows "S25FL064L_Read_body d' buf off rem s = S25FL064L_Read_body d buf off rem s"
proof -
  from assms have e: "p_CS d' = p_CS d" "p_RW d' = p_RW d" by (simp_all add: same_transport_def)
  show ?thesis unfolding S25FL064L_Read_body_def e by (rule refl)
qed

lemma S25FL064L_Read_loop_transport:
  assumes "same_transport d d'"
  shows "S25FL064L_Read_loop d' buf off rem s = S25FL064L_Read_loop d buf off rem s"
  using assms
proof (induction d buf off rem s rule: S25FL064L_Read_loop.induct)
  case (1 d buf off rem s)
  note st = \<open>same_transport d d'\<close>
  then have e: "p_CS d' = p_CS d" by (simp add: same_transport_def)
  from 1 show ?case
    by (auto simp: S25FL064L_Read_loop.simps [of d' buf off rem s]
          S25FL064L_Read_loop.simps [of d buf off rem s]
          S25FL064L_Read_body_transport [OF st] e
        split: option.splits sum.splits prod.splits)
qed

lemma same_transport_isInitialized: "same_transport d (d\<lparr>isInitialized := b\<rparr>)"
  by (simp add: same_transport_def)

lemma S25FL064L_Read_transport:
  assumes "same_transport d d'"
  shows "S25FL064L_Read d' Start p_Buffer Length s = S25FL064L_Read d Start p_Buffer Length s"
proof -
  from assms have e: "p_CS d' = p_CS d" "p_RW d' = p_RW d" by (simp_all add: same_transport_def)
  show ?thesis
    unfolding S25FL064L_Read_def e S25FL064L_Read_loop_transport [OF assms] by (rule refl)
qed

lemma S25FL064L_Write_transport:
  assumes "same_transport d d'"
  shows "S25FL064L_Write d' Address p_Buffer Length Tx_Buffer s
         = S25FL064L_Write d Address p_Buffer Length Tx_Buffer s"
  unfolding S25FL064L_Write_def S25FL064L_Write_loop_transport [OF assms] by (rule refl)

lemma S25FL064L_EraseSector_transport:
  assumes "same_transport d d'"
  shows "S25FL064L_EraseSector d' Address s = S25FL064L_EraseSector d Address s"
proof -
  from assms have e: "p_CS d' = p_CS d" "p_RW d' = p_RW d" by (simp_all add: same_transport_def)
  show ?thesis
    unfolding S25FL064L_EraseSector_def e S25FL064L_Command_transport [OF assms]
      S25FL064L_WaitBusy_transport [OF assms]
    by (rule refl)
qed

lemma S25FL064L_EraseChip_transport:
  assumes "same_transport d d'"
  shows "S25FL064L_EraseChip d' s = S25FL064L_EraseChip d s"
  unfolding S25FL064L_EraseChip_def S25FL064L_Command_transport [OF assms]
    S25FL064L_WaitBusy_transport [OF assms]
  by (rule refl)

text \<open>
  C3, as amended. No data operation consults \<open>isInitialized\<close>: read, write, sector erase
  and chip erase do on a device object whose flag is false exactly what they do on the
  same object with the flag true.
\<close>

theorem data_operations_ignore_isInitialized:
  "S25FL064L_Read (d\<lparr>isInitialized := b\<rparr>) Start p_Buffer Length s = S25FL064L_Read d Start p_Buffer Length s
   \<and> S25FL064L_Write (d\<lparr>isInitialized := b\<rparr>) Address p_Data Length' Tx_Buffer s
       = S25FL064L_Write d Address p_Data Length' Tx_Buffer s
   \<and> S25FL064L_EraseSector (d\<lparr>isInitialized := b\<rparr>) Address s = S25FL064L_EraseSector d Address s
   \<and> S25FL064L_EraseChip (d\<lparr>isInitialized := b\<rparr>) s = S25FL064L_EraseChip d s"
  by (intro conjI S25FL064L_Read_transport S25FL064L_Write_transport
        S25FL064L_EraseSector_transport S25FL064L_EraseChip_transport same_transport_isInitialized)

text \<open>
  A read on a device object that was never initialised goes to the chip and returns
  success.
\<close>

theorem S25FL064L_Read_uninitialized: "S25FL064L_Read (device (const_chip 0)) 0 (Some zero_bytes) 1 idle_bus
   = Some (S25FL064_NO_ERROR, Some (store zero_bytes 0 1 (const_bytes 0)),
       \<lparr>cs_line = False, trace =
          [ChipSelect True, Exchange [S25FL064L_CMD_4READ, 0, 0, 0, 0] 0 S25FL064_NO_ERROR [],
           Exchange [] 1 S25FL064_NO_ERROR [0], ChipSelect False]\<rparr>)
   \<and> \<not> isInitialized (device (const_chip 0))"
  by (simp add: eval_simps map_upt_0_numeral)

text \<open>
  C1. A write of one page plus one byte, against a chip that is always ready and write
  enabled, programs at the second page address the first byte of the buffer; the same
  buffer written by two calls split at the page boundary programs there its byte 256.
\<close>

theorem S25FL064L_Write_page_plus_one:
  "written (S25FL064L_Write (device (const_chip 0x02)) 0 (Some marked_bytes) 257 zero_bytes idle_bus)
     = Some (S25FL064_NO_ERROR, [(0, map marked_bytes [0..<256]), (256, [marked_bytes 0])])
   \<and> written (two_writes (device (const_chip 0x02)) 0 (Some marked_bytes) 256
               256 (Some (offset_bytes marked_bytes 256)) 1 zero_bytes idle_bus)
     = Some (S25FL064_NO_ERROR, [(0, map marked_bytes [0..<256]), (256, [marked_bytes 256])])
   \<and> marked_bytes 0 \<noteq> marked_bytes 256"
  by (simp add: eval_simps map_upt_0_numeral written_def two_writes_def be32_def)

section \<open>The chip-select line is released on return\<close>

lemma wired_CS: "wired c d \<Longrightarrow> p_CS d = Some bus_cs"
  by (simp add: wired_def)

lemma wired_RW: "wired c d \<Longrightarrow> p_RW d = Some (bus_rw c)"
  by (simp add: wired_def)

lemma wired_Busy: "wired c d \<Longrightarrow> p_Busy d = Some k \<Longrightarrow> k = bus_busy"
  by (auto simp: wired_def on_bus_def)

lemma wired_Reset: "wired c d \<Longrightarrow> p_Reset d = Some h \<Longrightarrow> h = bus_reset"
  by (auto simp: wired_def on_bus_def)

lemma wired_keeps_config: "keeps_config d d' \<Longrightarrow> wired c d \<Longrightarrow> wired c d'"
  by (simp add: keeps_config_def wired_def on_bus_def)


lemma cs_line_bus_cs: "cs_line (bus_cs b s) = b"
  by (simp add: bus_cs_def)

lemma cs_line_bus_rw: "bus_rw c tx n s = (e, rx, s') \<Longrightarrow> cs_line s' = cs_line s"
  by (auto simp: bus_rw_def split: prod.splits)

lemma cs_line_bus_reset: "cs_line (bus_reset s) = cs_line s"
  by (simp add: bus_reset_def)

lemma cs_line_bus_busy: "cs_line (bus_busy s) = cs_line s"
  by (simp add: bus_busy_def)

lemmas wired_pointer_simps = wired_CS wired_RW
lemmas cs_line_simps = cs_line_bus_cs cs_line_bus_reset cs_line_bus_busy

lemma S25FL064L_Command_released_Inl:
  "S25FL064L_Command d cmd nul n s = Inl (e, s') \<Longrightarrow> wired c d \<Longrightarrow> \<not> cs_line s \<Longrightarrow> \<not> cs_line s'"
  by (auto simp: S25FL064L_Command_def cs_line_simps wired_pointer_simps
           split: option.splits prod.splits if_splits)

lemma S25FL064L_Command_released_Inr:
  "S25FL064L_Command d cmd nul n s = Inr (rx, s') \<Longrightarrow> wired c d \<Longrightarrow> \<not> cs_line s'"
  by (auto simp: S25FL064L_Command_def cs_line_simps wired_pointer_simps
           split: option.splits prod.splits if_splits)

lemmas S25FL064L_Command_released = S25FL064L_Command_released_Inl S25FL064L_Command_released_Inr

lemma cs_line_busy_call:
  "wired c d \<Longrightarrow> cs_line (case p_Busy d of Some busy \<Rightarrow> busy s | None \<Rightarrow> s) = cs_line s"
  by (cases "p_Busy d") (auto simp: cs_line_simps dest: wired_Busy)

lemma S25FL064L_WaitBusy_released:
  assumes run: "S25FL064L_WaitBusy d s = Some (e, s')" and ob: "wired c d" and idle: "\<not> cs_line s"
  shows "\<not> cs_line s'"
proof -
  have "wired c d \<longrightarrow> \<not> cs_line s \<longrightarrow> \<not> cs_line (snd (e, s'))"
  proof (rule S25FL064L_WaitBusy.raw_induct
      [where P = "\<lambda>d s r. wired c d \<longrightarrow> \<not> cs_line s \<longrightarrow> \<not> cs_line (snd r)", OF _ run],
      goal_cases)
    case (1 W dv sv rv)
    show ?case
    proof (intro impI)
      assume o: "wired c dv" and i: "\<not> cs_line sv"
      show "\<not> cs_line (snd rv)"
        using 1 o i
        by (cases rv)
           (auto simp: Let_def cs_line_busy_call dest: S25FL064L_Command_released
                 split: sum.splits prod.splits if_splits)
    qed
  qed
  with ob idle show ?thesis by simp
qed

lemma S25FL064L_ReadID_released:
  "S25FL064L_ReadID d s = (e, d', s') \<Longrightarrow> wired c d \<Longrightarrow> \<not> cs_line s \<Longrightarrow> \<not> cs_line s'"
  by (auto simp: S25FL064L_ReadID_def wired_pointer_simps dest: S25FL064L_Command_released split: sum.splits prod.splits)

lemma S25FL064L_ReadUID_released:
  "S25FL064L_ReadUID d s = (e, d', s') \<Longrightarrow> wired c d \<Longrightarrow> \<not> cs_line s \<Longrightarrow> \<not> cs_line s'"
  by (auto simp: S25FL064L_ReadUID_def cs_line_simps wired_pointer_simps
           split: option.splits prod.splits if_splits)

lemma S25FL064L_ReadJEDEC_released:
  "S25FL064L_ReadJEDEC d s = (e, s') \<Longrightarrow> wired c d \<Longrightarrow> \<not> cs_line s \<Longrightarrow> \<not> cs_line s'"
  by (auto simp: S25FL064L_ReadJEDEC_def cs_line_simps wired_pointer_simps
           split: option.splits prod.splits if_splits)

lemma S25FL064L_Reset_released:
  "S25FL064L_Reset d s = (e, d', s') \<Longrightarrow> wired c d \<Longrightarrow> \<not> cs_line s \<Longrightarrow> \<not> cs_line s'"
  by (auto simp: S25FL064L_Reset_def cs_line_simps wired_pointer_simps dest: wired_Reset split: option.splits)

lemma S25FL064L_EnterPowerDown_released:
  "S25FL064L_EnterPowerDown d s = (e, d', s') \<Longrightarrow> wired c d \<Longrightarrow> \<not> cs_line s \<Longrightarrow> \<not> cs_line s'"
  by (auto simp: S25FL064L_EnterPowerDown_def dest: S25FL064L_Command_released
           split: sum.splits prod.splits)

lemma S25FL064L_LeavePowerDown_released:
  "S25FL064L_LeavePowerDown d s = Some (e, d', s') \<Longrightarrow> wired c d \<Longrightarrow> \<not> cs_line s \<Longrightarrow> \<not> cs_line s'"
  by (auto simp: S25FL064L_LeavePowerDown_def
           dest: S25FL064L_Command_released S25FL064L_WaitBusy_released
           split: sum.splits prod.splits option.splits if_splits)

lemma S25FL064L_GetError_released:
  "S25FL064L_GetError d p s = (e, p', s') \<Longrightarrow> wired c d \<Longrightarrow> \<not> cs_line s \<Longrightarrow> \<not> cs_line s'"
  by (auto simp: S25FL064L_GetError_def dest: S25FL064L_Command_released
           split: sum.splits prod.splits)

lemma S25FL064L_EraseSector_released:
  "S25FL064L_EraseSector d Address s = Some (e, s') \<Longrightarrow> wired c d \<Longrightarrow> \<not> cs_line s \<Longrightarrow> \<not> cs_line s'"
  by (auto simp: S25FL064L_EraseSector_def Let_def cs_line_simps wired_pointer_simps
           dest: S25FL064L_Command_released S25FL064L_WaitBusy_released
           split: sum.splits prod.splits option.splits if_splits)

lemma S25FL064L_EraseChip_released:
  "S25FL064L_EraseChip d s = Some (e, s') \<Longrightarrow> wired c d \<Longrightarrow> \<not> cs_line s \<Longrightarrow> \<not> cs_line s'"
  by (auto simp: S25FL064L_EraseChip_def
           dest: S25FL064L_Command_released S25FL064L_WaitBusy_released
           split: sum.splits prod.splits)

lemma S25FL064L_Write_body_released_Inl:
  "S25FL064L_Write_body d buf tx tmp adr rem s = Some (Inl (e, s')) \<Longrightarrow> wired c d \<Longrightarrow> \<not> cs_line s
   \<Longrightarrow> \<not> cs_line s'"
  by (auto simp: S25FL064L_Write_body_def Let_def cs_line_simps wired_pointer_simps
           dest: S25FL064L_Command_released
           split: sum.splits prod.splits option.splits if_splits)

lemma S25FL064L_Write_body_released_Inr:
  "S25FL064L_Write_body d buf tx tmp adr rem s = Some (Inr (tx', tmp', adr', rem', s')) \<Longrightarrow> wired c d
   \<Longrightarrow> \<not> cs_line s'"
  by (auto simp: S25FL064L_Write_body_def Let_def cs_line_simps wired_pointer_simps
          
           split: sum.splits prod.splits option.splits if_splits)

lemma S25FL064L_Write_loop_released:
  "S25FL064L_Write_loop d buf tx tmp adr rem s = Some (e, s') \<Longrightarrow> wired c d \<Longrightarrow> \<not> cs_line s
   \<Longrightarrow> \<not> cs_line s'"
proof (induction d buf tx tmp adr rem s rule: S25FL064L_Write_loop.induct)
  case (1 d buf tx tmp adr rem s)
  from "1.prems"(1) show ?case
  proof (cases "S25FL064L_Write_body d buf tx tmp adr rem s")
    case None
    with "1.prems"(1) show ?thesis by (simp add: S25FL064L_Write_loop.simps [of d buf tx tmp adr rem s])
  next
    case (Some r)
    show ?thesis
    proof (cases r)
      case (Inl a)
      with Some "1.prems" S25FL064L_Write_body_released_Inl [of d buf tx tmp adr rem s e s' c]
      show ?thesis by (simp add: S25FL064L_Write_loop.simps [of d buf tx tmp adr rem s])
    next
      case (Inr b)
      obtain tx' tmp' adr' rem' s1 where b: "b = (tx', tmp', adr', rem', s1)" by (cases b)
      from Some Inr b have body: "S25FL064L_Write_body d buf tx tmp adr rem s
          = Some (Inr (tx', tmp', adr', rem', s1))" by simp
      from S25FL064L_Write_body_released_Inr [OF body "1.prems"(2)] have i1: "\<not> cs_line s1" .
      show ?thesis
      proof (cases "0 < rem'")
        case True
        with body "1.prems"(1) have "S25FL064L_Write_loop d buf tx' tmp' adr' rem' s1 = Some (e, s')"
          by (simp add: S25FL064L_Write_loop.simps [of d buf tx tmp adr rem s])
        from "1.IH" [OF body refl refl refl refl refl True this "1.prems"(2) i1] show ?thesis .
      next
        case False
        with body "1.prems"(1) have "S25FL064L_WaitBusy d s1 = Some (e, s')"
          by (simp add: S25FL064L_Write_loop.simps [of d buf tx tmp adr rem s])
        from S25FL064L_WaitBusy_released [OF this "1.prems"(2) i1] show ?thesis .
      qed
    qed
  qed
qed

lemma S25FL064L_Write_released:
  "S25FL064L_Write d Address p_Buffer Length Tx_Buffer s = Some (e, s') \<Longrightarrow> wired c d \<Longrightarrow> \<not> cs_line s
   \<Longrightarrow> \<not> cs_line s'"
  by (auto simp: S25FL064L_Write_def dest: S25FL064L_Write_loop_released split: option.splits)

lemma S25FL064L_Read_body_released:
  "S25FL064L_Read_body d buf off rem s = Some (Inl (e, buf', s')) \<Longrightarrow> wired c d \<Longrightarrow> \<not> cs_line s'"
  by (auto simp: S25FL064L_Read_body_def Let_def cs_line_simps wired_pointer_simps
           split: prod.splits if_splits)

lemma S25FL064L_Read_loop_released:
  "S25FL064L_Read_loop d buf off rem s = Some (e, buf', s') \<Longrightarrow> wired c d \<Longrightarrow> \<not> cs_line s'"
proof (induction d buf off rem s rule: S25FL064L_Read_loop.induct)
  case (1 d buf off rem s)
  show ?case
  proof (cases "S25FL064L_Read_body d buf off rem s")
    case None
    with "1.prems"(1) show ?thesis by (simp add: S25FL064L_Read_loop.simps [of d buf off rem s])
  next
    case (Some r)
    show ?thesis
    proof (cases r)
      case (Inl a)
      with Some "1.prems" S25FL064L_Read_body_released [of d buf off rem s e buf' s' c]
      show ?thesis by (simp add: S25FL064L_Read_loop.simps [of d buf off rem s])
    next
      case (Inr b)
      obtain buf1 off1 rem1 s1 where b: "b = (buf1, off1, rem1, s1)" by (cases b)
      from Some Inr b have body: "S25FL064L_Read_body d buf off rem s = Some (Inr (buf1, off1, rem1, s1))"
        by simp
      show ?thesis
      proof (cases "0 < rem1")
        case True
        with body "1.prems"(1) have "S25FL064L_Read_loop d buf1 off1 rem1 s1 = Some (e, buf', s')"
          by (simp add: S25FL064L_Read_loop.simps [of d buf off rem s])
        from "1.IH" [OF body refl refl refl refl True this "1.prems"(2)] show ?thesis .
      next
        case False
        with body "1.prems" show ?thesis
          by (auto simp: S25FL064L_Read_loop.simps [of d buf off rem s] cs_line_simps wired_pointer_simps)
      qed
    qed
  qed
qed

lemma S25FL064L_Read_released:
  "S25FL064L_Read d Start p_Buffer Length s = Some (e, buf', s') \<Longrightarrow> wired c d \<Longrightarrow> \<not> cs_line s
   \<Longrightarrow> \<not> cs_line s'"
  by (auto simp: S25FL064L_Read_def Let_def cs_line_simps wired_pointer_simps
           dest: S25FL064L_Read_loop_released
           split: option.splits prod.splits if_splits)

lemma S25FL064L_Init_released:
  assumes run: "S25FL064L_Init d s = Some (e, d', s')" and w: "wired c d" and idle: "\<not> cs_line s"
  shows "\<not> cs_line s'"
proof -
  let ?d0 = "d\<lparr>isInitialized := False\<rparr>"
  have w0: "wired c ?d0" using w by (simp add: wired_def on_bus_def)
  from run obtain e1 d1 s1 where lp: "S25FL064L_LeavePowerDown ?d0 s = Some (e1, d1, s1)"
    by (auto simp: S25FL064L_Init_def split: option.splits)
  from S25FL064L_LeavePowerDown_released [OF lp w0 idle] have i1: "\<not> cs_line s1" .
  from S25FL064L_LeavePowerDown_fields [OF lp] w0 have w1: "wired c d1"
    by (auto intro: wired_keeps_config)
  obtain e2 d2 s2 where rs: "S25FL064L_Reset d1 s1 = (e2, d2, s2)"
    by (cases "S25FL064L_Reset d1 s1")
  from S25FL064L_Reset_released [OF rs w1 i1] have i2: "\<not> cs_line s2" .
  from S25FL064L_Reset_fields [OF rs] w1 have w2: "wired c d2" by (auto intro: wired_keeps_config)
  obtain e3 d3 s3 where id: "S25FL064L_ReadID d2 s2 = (e3, d3, s3)"
    by (cases "S25FL064L_ReadID d2 s2")
  from S25FL064L_ReadID_released [OF id w2 i2] have i3: "\<not> cs_line s3" .
  from S25FL064L_ReadID_fields [OF id] w2 have w3: "wired c d3" by (auto intro: wired_keeps_config)
  obtain e4 d4 s4 where ui: "S25FL064L_ReadUID d3 s3 = (e4, d4, s4)"
    by (cases "S25FL064L_ReadUID d3 s3")
  from S25FL064L_ReadUID_released [OF ui w3 i3] have i4: "\<not> cs_line s4" .
  from S25FL064L_ReadUID_fields [OF ui] w3 have w4: "wired c d4" by (auto intro: wired_keeps_config)
  obtain e5 s5 where je: "S25FL064L_ReadJEDEC d4 s4 = (e5, s5)"
    by (cases "S25FL064L_ReadJEDEC d4 s4")
  from S25FL064L_ReadJEDEC_released [OF je w4 i4] have i5: "\<not> cs_line s5" .
  show ?thesis
    using run lp rs id ui je i1 i2 i3 i4 i5 S25FL064L_Command_released [of d4 _ _ _ s5 _ _ c] w4
    by (auto simp: S25FL064L_Init_def split: sum.splits prod.splits if_splits)
qed

lemma S25FL064L_Command_unwired:
  "p_RW d = None \<or> p_CS d = None \<Longrightarrow> S25FL064L_Command d cmd nul n s = Inl (S25FL064_INVALID_PARAM, s)"
  by (auto simp: S25FL064L_Command_def split: option.splits)

lemma S25FL064L_WaitBusy_unwired:
  "p_RW d = None \<or> p_CS d = None \<Longrightarrow> S25FL064L_WaitBusy d s = Some (S25FL064_INVALID_PARAM, s)"
  by (subst S25FL064L_WaitBusy.simps) (simp add: S25FL064L_Command_unwired)

lemma S25FL064L_LeavePowerDown_unwired:
  "p_RW d = None \<or> p_CS d = None \<Longrightarrow> S25FL064L_LeavePowerDown d s = Some (S25FL064_INVALID_PARAM, d, s)"
  by (simp add: S25FL064L_LeavePowerDown_def S25FL064L_Command_unwired)

lemma S25FL064L_Init_unwired:
  assumes "p_RW d = None \<or> p_CS d = None"
  shows "S25FL064L_Init d s = Some (S25FL064_INVALID_PARAM, d\<lparr>isInitialized := False\<rparr>, s)"
proof -
  from assms have "p_RW (d\<lparr>isInitialized := False\<rparr>) = None \<or> p_CS (d\<lparr>isInitialized := False\<rparr>) = None"
    by simp
  from S25FL064L_LeavePowerDown_unwired [OF this] show ?thesis
    by (simp add: S25FL064L_Init_def)
qed

lemma S25FL064L_Write_unwired:
  assumes "p_RW d = None \<or> p_CS d = None"
  shows "S25FL064L_Write d Address p_Buffer Length Tx_Buffer s = Some (S25FL064_INVALID_PARAM, s)"
  by (cases p_Buffer)
     (simp_all add: S25FL064L_Write_def S25FL064L_Write_loop.simps S25FL064L_Write_body_def
        S25FL064L_Command_unwired [OF assms])

lemma S25FL064L_Read_unwired:
  assumes "p_RW d = None \<or> p_CS d = None" and "S25FL064L_Read d Start p_Buffer Length s = Some (e, b, s')"
  shows "s' = s"
  using assms by (auto simp: S25FL064L_Read_def Let_def split: option.splits)

lemma on_bus_cases:
  assumes "on_bus c d"
  obtains "wired c d" | "p_RW d = None \<or> p_CS d = None"
  using assms by (auto simp: wired_def on_bus_def)

lemma S25FL064L_Reset_on_bus_released:
  "S25FL064L_Reset d s = (e, d', s') \<Longrightarrow> on_bus c d \<Longrightarrow> \<not> cs_line s \<Longrightarrow> \<not> cs_line s'"
  by (auto simp: S25FL064L_Reset_def on_bus_def cs_line_simps split: option.splits)

text \<open>
  C10. On a bus whose chip-select line is released when the call is made, every public
  function of the driver that returns leaves the line released, on its success path and
  on each of its error paths, for a device object whose function pointers are the bus
  functions or null.
\<close>

theorem chip_select_released_on_return:
  assumes ob: "on_bus c d" and idle: "\<not> cs_line s"
  shows "(S25FL064L_Init d s = Some (ei, di, si) \<longrightarrow> \<not> cs_line si)
       \<and> (S25FL064L_GetError d p s = (eg, pg, sg) \<longrightarrow> \<not> cs_line sg)
       \<and> (S25FL064L_Reset d s = (er, dr, sr) \<longrightarrow> \<not> cs_line sr)
       \<and> (S25FL064L_EnterPowerDown d s = (ee, de, se) \<longrightarrow> \<not> cs_line se)
       \<and> (S25FL064L_LeavePowerDown d s = Some (el, dl, sl) \<longrightarrow> \<not> cs_line sl)
       \<and> (S25FL064L_EraseSector d Address s = Some (es, ss) \<longrightarrow> \<not> cs_line ss)
       \<and> (S25FL064L_EraseChip d s = Some (ec, sc) \<longrightarrow> \<not> cs_line sc)
       \<and> (S25FL064L_Write d Address p_Buffer Length Tx_Buffer s = Some (ew, sw) \<longrightarrow> \<not> cs_line sw)
       \<and> (S25FL064L_Read d Start p_Data Length' s = Some (ed, bd, sd) \<longrightarrow> \<not> cs_line sd)"
proof (cases rule: on_bus_cases [OF ob])
  case 1
  show ?thesis
    by (intro conjI impI)
       (erule S25FL064L_Init_released [OF _ 1 idle] S25FL064L_GetError_released [OF _ 1 idle]
          S25FL064L_Reset_on_bus_released [OF _ ob idle] S25FL064L_EnterPowerDown_released [OF _ 1 idle]
          S25FL064L_LeavePowerDown_released [OF _ 1 idle] S25FL064L_EraseSector_released [OF _ 1 idle]
          S25FL064L_EraseChip_released [OF _ 1 idle] S25FL064L_Write_released [OF _ 1 idle]
          S25FL064L_Read_released [OF _ 1 idle])+
next
  case 2
  show ?thesis
    using idle S25FL064L_Reset_on_bus_released [OF _ ob idle, of er dr sr]
      S25FL064L_Read_unwired [OF 2, of Start p_Data Length' s ed bd sd]
    by (auto simp: S25FL064L_Init_unwired [OF 2] S25FL064L_LeavePowerDown_unwired [OF 2]
          S25FL064L_Write_unwired [OF 2] S25FL064L_GetError_def S25FL064L_EnterPowerDown_def
          S25FL064L_EraseSector_def S25FL064L_EraseChip_def S25FL064L_Command_unwired [OF 2])
qed

text \<open>
  The theorem at work on a chip whose every exchange fails: the initialisation, a write
  and a read return the error with the line released.
\<close>

theorem chip_select_released_on_return_witness:
  "on_bus (failing_chip S25FL064_INVALID_PARAM) (device (failing_chip S25FL064_INVALID_PARAM))
   \<and> \<not> cs_line idle_bus
   \<and> S25FL064L_Init (device (failing_chip S25FL064_INVALID_PARAM)) idle_bus
       = Some (S25FL064_INVALID_PARAM, device (failing_chip S25FL064_INVALID_PARAM),
           \<lparr>cs_line = False, trace =
             [ChipSelect True, Exchange [S25FL064L_CMD_RES] 0 S25FL064_INVALID_PARAM [], ChipSelect False]\<rparr>)
   \<and> S25FL064L_Write (device (failing_chip S25FL064_INVALID_PARAM)) 0 (Some zero_bytes) 1 zero_bytes idle_bus
       = Some (S25FL064_INVALID_PARAM,
           \<lparr>cs_line = False, trace =
             [ChipSelect True, Exchange [S25FL064L_CMD_WREN] 0 S25FL064_INVALID_PARAM [], ChipSelect False]\<rparr>)
   \<and> S25FL064L_Read (device (failing_chip S25FL064_INVALID_PARAM)) 0 (Some zero_bytes) 1 idle_bus
       = Some (S25FL064_INVALID_PARAM, Some zero_bytes,
           \<lparr>cs_line = False, trace =
             [ChipSelect True, Exchange [S25FL064L_CMD_4READ, 0, 0, 0, 0] 0 S25FL064_INVALID_PARAM [],
              ChipSelect False]\<rparr>)
   \<and> \<not> cs_line \<lparr>cs_line = False, trace =
             [ChipSelect True, Exchange [S25FL064L_CMD_RES] 0 S25FL064_INVALID_PARAM [], ChipSelect False]\<rparr>
   \<and> \<not> cs_line \<lparr>cs_line = False, trace =
             [ChipSelect True, Exchange [S25FL064L_CMD_WREN] 0 S25FL064_INVALID_PARAM [], ChipSelect False]\<rparr>
   \<and> \<not> cs_line \<lparr>cs_line = False, trace =
             [ChipSelect True, Exchange [S25FL064L_CMD_4READ, 0, 0, 0, 0] 0 S25FL064_INVALID_PARAM [],
              ChipSelect False]\<rparr>"
proof -
  let ?c = "failing_chip S25FL064_INVALID_PARAM"
  let ?si = "\<lparr>cs_line = False, trace =
             [ChipSelect True, Exchange [S25FL064L_CMD_RES] 0 S25FL064_INVALID_PARAM [], ChipSelect False]\<rparr>"
  let ?sw = "\<lparr>cs_line = False, trace =
             [ChipSelect True, Exchange [S25FL064L_CMD_WREN] 0 S25FL064_INVALID_PARAM [], ChipSelect False]\<rparr>"
  let ?sd = "\<lparr>cs_line = False, trace =
             [ChipSelect True, Exchange [S25FL064L_CMD_4READ, 0, 0, 0, 0] 0 S25FL064_INVALID_PARAM [],
              ChipSelect False]\<rparr>"
  have ob: "on_bus ?c (device ?c)"
    by (simp add: on_bus_def device_def)
  have idle: "\<not> cs_line idle_bus"
    by (simp add: idle_bus_def)
  have ri: "S25FL064L_Init (device ?c) idle_bus = Some (S25FL064_INVALID_PARAM, device ?c, ?si)"
    by (simp add: eval_simps)
  have rw: "S25FL064L_Write (device ?c) 0 (Some zero_bytes) 1 zero_bytes idle_bus
            = Some (S25FL064_INVALID_PARAM, ?sw)"
    by (simp add: eval_simps)
  have rd: "S25FL064L_Read (device ?c) 0 (Some zero_bytes) 1 idle_bus
            = Some (S25FL064_INVALID_PARAM, Some zero_bytes, ?sd)"
    by (simp add: eval_simps map_upt_0_numeral)
  from chip_select_released_on_return [OF ob idle, where ei = S25FL064_INVALID_PARAM
      and di = "device ?c" and si = ?si and ew = S25FL064_INVALID_PARAM and sw = ?sw
      and ed = S25FL064_INVALID_PARAM and bd = "Some zero_bytes" and sd = ?sd
      and Address = 0 and p_Buffer = "Some zero_bytes" and Length = 1 and Tx_Buffer = zero_bytes
      and Start = 0 and p_Data = "Some zero_bytes" and Length' = 1] ri rw rd
  have "\<not> cs_line ?si \<and> \<not> cs_line ?sw \<and> \<not> cs_line ?sd" by blast
  with ob idle ri rw rd show ?thesis by blast
qed

section \<open>The command frame and the chunks of a read\<close>

lemma byte3: "(ucast (drop_bit 24 ((A :: u32) AND 0xFF000000)) :: u8) = ucast (drop_bit 24 A)"
proof -
  have m: "(0xFF000000 :: u32) = push_bit 24 (mask 8)" by (simp add: mask_eq_exp_minus_1)
  show ?thesis unfolding m
    by (rule bit_eqI) (auto simp: bit_simps)
qed

lemma byte2: "(ucast (drop_bit 16 ((A :: u32) AND 0x00FF0000)) :: u8) = ucast (drop_bit 16 A)"
proof -
  have m: "(0x00FF0000 :: u32) = push_bit 16 (mask 8)" by (simp add: mask_eq_exp_minus_1)
  show ?thesis unfolding m
    by (rule bit_eqI) (auto simp: bit_simps)
qed

lemma byte1: "(ucast (drop_bit 8 ((A :: u32) AND 0x0000FF00)) :: u8) = ucast (drop_bit 8 A)"
proof -
  have m: "(0x0000FF00 :: u32) = push_bit 8 (mask 8)" by (simp add: mask_eq_exp_minus_1)
  show ?thesis unfolding m
    by (rule bit_eqI) (auto simp: bit_simps)
qed

lemma byte0: "(ucast (drop_bit 0 ((A :: u32) AND 0x000000FF)) :: u8) = ucast A"
proof -
  have m: "(0x000000FF :: u32) = mask 8" by (simp add: mask_eq_exp_minus_1)
  show ?thesis unfolding m
    by (rule bit_eqI) (auto simp: bit_simps)
qed

lemma ucast_drop_and_255: "(ucast (drop_bit k (A :: u32) AND 255) :: u8) = ucast (drop_bit k A)"
proof -
  have m: "(255 :: u32) = mask 8" by (simp add: mask_eq_exp_minus_1)
  show ?thesis unfolding m
    by (rule bit_eqI) (auto simp: bit_simps)
qed

lemma ucast_and_255: "(ucast ((A :: u32) AND 255) :: u8) = ucast A"
  using ucast_drop_and_255 [of 0 A] by simp

lemma address_frame_bytes:
  "map (address_frame Tx opcode A) [0..<5] = opcode # be_bytes A"
  by (simp add: address_frame_def be_bytes_def map_upt_0_numeral ucast_drop_and_255 ucast_and_255)

lemma be32_be_bytes: "be32 (be_bytes A) = A"
proof (rule bit_word_eqI)
  fix n :: nat
  assume "n < LENGTH(32)"
  then have n: "n < 32" by simp
  consider "n < 8" | "8 \<le> n" "n < 16" | "16 \<le> n" "n < 24" | "24 \<le> n" by linarith
  then show "bit (be32 (be_bytes A)) n = bit A n"
    using n by cases (auto simp: be32_def be_bytes_def bit_simps)
qed

lemma trace_bus_cs: "trace (bus_cs b s) = trace s @ [ChipSelect b]"
  by (simp add: bus_cs_def)

lemma bus_rw_result:
  "bus_rw c tx n s = (e, rx, s') \<Longrightarrow>
     s' = s\<lparr>trace := trace s @ [Exchange tx n e (map rx [0..<n])]\<rparr> \<and> c (trace s) tx n = (e, rx)"
  by (auto simp: bus_rw_def split: prod.splits)

lemma unat_ucast_u8_u32: "unat (ucast (x :: u8) :: u32) = unat x"
proof -
  have "unat x < 256" using unsigned_less [of x, where ?'a = nat] by simp
  then show ?thesis by (simp add: unsigned_ucast_eq take_bit_nat_eq_self_iff)
qed

lemma transmission_length:
  fixes r :: u32 and t :: u8
  assumes pos: "0 < r" and t: "t = (if r > 255 then 255 else ucast r)"
  shows "0 < unat t \<and> unat t \<le> 255 \<and> unat t \<le> unat r
         \<and> unat (r - ucast t) = unat r - unat t
         \<and> (r - ucast t = 0 \<longrightarrow> unat t = unat r)"
proof (cases "255 < r")
  case True
  then have t255: "t = 255" using t by simp
  from True have "(255 :: u32) \<le> r" by simp
  then have sub: "unat (r - 255) = unat r - 255" by (simp add: unat_sub)
  from True have big: "255 < unat r" by (simp add: word_less_nat_alt)
  have "r - 255 \<noteq> 0"
  proof
    assume "r - 255 = 0"
    then have "unat (r - 255) = 0" by simp
    with sub big show False by simp
  qed
  with sub big show ?thesis by (simp add: t255)
next
  case False
  then have tr: "t = ucast r" using t by simp
  from ucast_u8_u32_small [OF False] have rt: "ucast (ucast r :: u8) = r" .
  then have "unat (ucast (ucast r :: u8) :: u32) = unat r" by simp
  then have same: "unat (ucast r :: u8) = unat r" by (simp add: unat_ucast_u8_u32)
  have le: "unat (ucast r :: u8) \<le> 255"
    using unsigned_less [of "ucast r :: u8", where ?'a = nat] by simp
  from pos have "0 < unat r" by (simp add: word_less_nat_alt)
  with same le rt show ?thesis by (simp add: tr)
qed

lemma S25FL064L_Read_body_wired_Inl:
  assumes run: "S25FL064L_Read_body d buf off r s = Some (Inl (e, buf', s'))"
    and w: "wired c d" and pos: "0 < r"
  shows "\<exists>n rx. 0 < n \<and> n \<le> 255 \<and> n \<le> unat r
           \<and> trace s' = trace s @ [Exchange [] n e rx, ChipSelect False]"
proof -
  let ?t = "(if r > 255 then 255 else ucast r) :: u8"
  note tl = transmission_length [OF pos refl [of ?t]]
  obtain e1 rx s1 where rw: "bus_rw c [] (unat ?t) s = (e1, rx, s1)"
    by (cases "bus_rw c [] (unat ?t) s")
  from bus_rw_result [OF rw] have s1: "trace s1 = trace s @ [Exchange [] (unat ?t) e1 (map rx [0..<unat ?t])]"
    by simp
  from run rw have "e = e1" and "s' = bus_cs False s1"
    by (auto simp: S25FL064L_Read_body_def Let_def wired_CS [OF w] wired_RW [OF w] split: if_splits)
  with s1 have "trace s' = trace s @ [Exchange [] (unat ?t) e (map rx [0..<unat ?t]), ChipSelect False]"
    by (simp add: trace_bus_cs)
  with tl show ?thesis by blast
qed

lemma S25FL064L_Read_body_wired_Inr:
  assumes run: "S25FL064L_Read_body d buf off r s = Some (Inr (buf', off', r', s'))"
    and w: "wired c d" and pos: "0 < r"
  shows "\<exists>n rx. 0 < n \<and> n \<le> 255 \<and> n \<le> unat r \<and> unat r' = unat r - n
           \<and> (r' = 0 \<longrightarrow> n = unat r)
           \<and> trace s' = trace s @ [Exchange [] n S25FL064_NO_ERROR rx]"
proof -
  let ?t = "(if r > 255 then 255 else ucast r) :: u8"
  note tl = transmission_length [OF pos refl [of ?t]]
  obtain e1 rx s1 where rw: "bus_rw c [] (unat ?t) s = (e1, rx, s1)"
    by (cases "bus_rw c [] (unat ?t) s")
  from bus_rw_result [OF rw] have s1: "trace s1 = trace s @ [Exchange [] (unat ?t) e1 (map rx [0..<unat ?t])]"
    by simp
  from run rw have "e1 = S25FL064_NO_ERROR" and "s' = s1" and "r' = r - ucast ?t"
    by (auto simp: S25FL064L_Read_body_def Let_def wired_CS [OF w] wired_RW [OF w] split: if_splits)
  with s1 tl show ?thesis by blast
qed

lemma S25FL064L_Read_loop_trace:
  "S25FL064L_Read_loop d buf off r s = Some (e, buf', s') \<Longrightarrow> wired c d \<Longrightarrow> 0 < r \<Longrightarrow>
   \<exists>chunks. trace s' = trace s @ chunks @ [ChipSelect False]
     \<and> list_all (receive_chunk 255) chunks
     \<and> sum_list (map rx_length chunks) \<le> unat r
     \<and> (e = S25FL064_NO_ERROR \<longrightarrow> sum_list (map rx_length chunks) = unat r)"
proof (induction d buf off r s rule: S25FL064L_Read_loop.induct)
  case (1 d buf off r s)
  note w = \<open>wired c d\<close> and pos = \<open>0 < r\<close> and run = "1.prems"(1)
  show ?case
  proof (cases "S25FL064L_Read_body d buf off r s")
    case None
    with run show ?thesis by (simp add: S25FL064L_Read_loop.simps [of d buf off r s])
  next
    case (Some res)
    show ?thesis
    proof (cases res)
      case (Inl a)
      with Some run have body: "S25FL064L_Read_body d buf off r s = Some (Inl (e, buf', s'))"
        by (simp add: S25FL064L_Read_loop.simps [of d buf off r s])
      from S25FL064L_Read_body_wired_Inl [OF body w pos] obtain n rx
        where n: "0 < n" "n \<le> 255" "n \<le> unat r"
          and tr: "trace s' = trace s @ [Exchange [] n e rx, ChipSelect False]" by blast
      have e: "e \<noteq> S25FL064_NO_ERROR"
        using body by (auto simp: S25FL064L_Read_body_def Let_def split: option.splits prod.splits if_splits)
      show ?thesis
        by (rule exI [of _ "[Exchange [] n e rx]"]) (use n tr e in simp)
    next
      case (Inr b)
      obtain buf1 off1 r1 s1 where b: "b = (buf1, off1, r1, s1)" by (cases b)
      from Some Inr b have body: "S25FL064L_Read_body d buf off r s = Some (Inr (buf1, off1, r1, s1))"
        by simp
      from S25FL064L_Read_body_wired_Inr [OF body w pos] obtain n rx
        where n: "0 < n" "n \<le> 255" "n \<le> unat r" "unat r1 = unat r - n" "r1 = 0 \<longrightarrow> n = unat r"
          and tr: "trace s1 = trace s @ [Exchange [] n S25FL064_NO_ERROR rx]" by blast
      show ?thesis
      proof (cases "0 < r1")
        case True
        with body run have rec: "S25FL064L_Read_loop d buf1 off1 r1 s1 = Some (e, buf', s')"
          by (simp add: S25FL064L_Read_loop.simps [of d buf off r s])
        from "1.IH" [OF body refl refl refl refl True rec w True] obtain chunks
          where ch: "trace s' = trace s1 @ chunks @ [ChipSelect False]"
            "list_all (receive_chunk 255) chunks"
            "sum_list (map rx_length chunks) \<le> unat r1"
            "e = S25FL064_NO_ERROR \<longrightarrow> sum_list (map rx_length chunks) = unat r1" by blast
        show ?thesis
          by (rule exI [of _ "Exchange [] n S25FL064_NO_ERROR rx # chunks"]) (use n tr ch in auto)
      next
        case False
        then have z: "r1 = 0" by (simp add: word_gt_0)
        with body run have "e = S25FL064_NO_ERROR" and "s' = bus_cs False s1"
          by (auto simp: S25FL064L_Read_loop.simps [of d buf off r s] wired_CS [OF w])
        with tr n z show ?thesis
          by (intro exI [of _ "[Exchange [] n S25FL064_NO_ERROR rx]"]) (simp add: trace_bus_cs)
      qed
    qed
  qed
qed

text \<open>
  C8. A read of at least one byte with a non-null buffer, on a device object wired to the
  bus, puts on the bus one chip-select window: the selection, one command frame made of
  the read opcode and the four bytes of the start address, then receive-only exchanges
  of 1 to 255 bytes each, then the release. The receive lengths never add up to more
  than the length asked for, and add up to exactly that length when the read returns
  success.
\<close>

theorem S25FL064L_Read_single_frame:
  assumes w: "wired c d" and pos: "0 < Length"
    and run: "S25FL064L_Read d Start (Some buf) Length s = Some (e, b', s')"
  shows "\<exists>e0 chunks.
           trace s' = trace s @ [ChipSelect True, Exchange (S25FL064L_CMD_4READ # be_bytes Start) 0 e0 []]
                        @ chunks @ [ChipSelect False]
         \<and> be32 (be_bytes Start) = Start
         \<and> list_all (receive_chunk 255) chunks
         \<and> sum_list (map rx_length chunks) \<le> unat Length
         \<and> (e = S25FL064_NO_ERROR \<longrightarrow> e0 = S25FL064_NO_ERROR \<and> sum_list (map rx_length chunks) = unat Length)"
proof -
  let ?frame = "S25FL064L_CMD_4READ # be_bytes Start"
  obtain e0 rx0 s1 where rw: "bus_rw c ?frame 0 (bus_cs True s) = (e0, rx0, s1)"
    by (cases "bus_rw c ?frame 0 (bus_cs True s)")
  from bus_rw_result [OF rw]
  have s1: "trace s1 = trace s @ [ChipSelect True, Exchange ?frame 0 e0 []]"
    by (simp add: trace_bus_cs)
  show ?thesis
  proof (cases "e0 = S25FL064_NO_ERROR")
    case False
    with run rw have "e = e0" and "s' = bus_cs False s1"
      by (auto simp: S25FL064L_Read_def Let_def wired_CS [OF w] wired_RW [OF w] address_frame_bytes)
    with s1 False show ?thesis
      by (intro exI [of _ e0] exI [of _ "[]"]) (simp add: trace_bus_cs be32_be_bytes)
  next
    case True
    with run rw have loop: "S25FL064L_Read_loop d buf 0 Length s1 = Some (e, the b', s')"
      by (auto simp: S25FL064L_Read_def Let_def wired_CS [OF w] wired_RW [OF w] address_frame_bytes
               split: option.splits)
    from S25FL064L_Read_loop_trace [OF loop w pos] obtain chunks
      where ch: "trace s' = trace s1 @ chunks @ [ChipSelect False]"
        "list_all (receive_chunk 255) chunks"
        "sum_list (map rx_length chunks) \<le> unat Length"
        "e = S25FL064_NO_ERROR \<longrightarrow> sum_list (map rx_length chunks) = unat Length" by blast
    with s1 True show ?thesis
      by (intro exI [of _ e0] exI [of _ chunks]) (simp add: be32_be_bytes)
  qed
qed

text \<open>A read of 256 bytes: one frame, a chunk of 255 bytes and a chunk of 1 byte.\<close>

theorem S25FL064L_Read_single_frame_witness:
  "wired (const_chip 0) (device (const_chip 0))
   \<and> (0 :: u32) < 256
   \<and> S25FL064L_Read (device (const_chip 0)) 0x00ABCDEF (Some zero_bytes) 256 idle_bus
       = Some (S25FL064_NO_ERROR,
           Some (store (store zero_bytes 0 255 (const_bytes 0)) 255 1 (const_bytes 0)),
           \<lparr>cs_line = False, trace =
             [ChipSelect True, Exchange [S25FL064L_CMD_4READ, 0x00, 0xAB, 0xCD, 0xEF] 0 S25FL064_NO_ERROR [],
              Exchange [] 255 S25FL064_NO_ERROR (map (const_bytes 0) [0..<255]),
              Exchange [] 1 S25FL064_NO_ERROR (map (const_bytes 0) [0..<1]),
              ChipSelect False]\<rparr>)
   \<and> (\<exists>e0 chunks.
         [ChipSelect True, Exchange [S25FL064L_CMD_4READ, 0x00, 0xAB, 0xCD, 0xEF] 0 S25FL064_NO_ERROR [],
          Exchange [] 255 S25FL064_NO_ERROR (map (const_bytes 0) [0..<255]),
          Exchange [] 1 S25FL064_NO_ERROR (map (const_bytes 0) [0..<1]),
          ChipSelect False]
         = [ChipSelect True, Exchange (S25FL064L_CMD_4READ # be_bytes 0x00ABCDEF) 0 e0 []]
             @ chunks @ [ChipSelect False]
       \<and> list_all (receive_chunk 255) chunks
       \<and> sum_list (map rx_length chunks) = 256)"
proof -
  let ?s = "\<lparr>cs_line = False, trace =
             [ChipSelect True, Exchange [S25FL064L_CMD_4READ, 0x00, 0xAB, 0xCD, 0xEF] 0 S25FL064_NO_ERROR [],
              Exchange [] 255 S25FL064_NO_ERROR (map (const_bytes 0) [0..<255]),
              Exchange [] 1 S25FL064_NO_ERROR (map (const_bytes 0) [0..<1]),
              ChipSelect False]\<rparr>"
  have w: "wired (const_chip 0) (device (const_chip 0))" by (rule wired_device)
  have pos: "(0 :: u32) < 256" by simp
  have bytes: "be_bytes 0x00ABCDEF = [0x00, 0xAB, 0xCD, 0xEF]"
    by (simp add: be_bytes_def)
  have run: "S25FL064L_Read (device (const_chip 0)) 0x00ABCDEF (Some zero_bytes) 256 idle_bus
       = Some (S25FL064_NO_ERROR,
           Some (store (store zero_bytes 0 255 (const_bytes 0)) 255 1 (const_bytes 0)), ?s)"
    by (simp add: S25FL064L_Read_def S25FL064L_Read_loop.simps S25FL064L_Read_body_def Let_def
          address_frame_bytes bytes device_def const_chip_def idle_bus_def bus_cs_def bus_rw_def
          word_less_nat_alt)
  from S25FL064L_Read_single_frame [OF w pos run] w pos run show ?thesis
    by (simp add: idle_bus_def)
qed

section \<open>The write-enable discipline\<close>

lemma monitor_append: "monitor (es @ evs) = fold step evs (monitor es)"
  by (simp add: monitor_def)

lemma bus_rw_unfold:
  "bus_rw c tx n s =
     (fst (c (trace s) tx n), snd (c (trace s) tx n),
      s\<lparr>trace := trace s @ [Exchange tx n (fst (c (trace s) tx n)) (map (snd (c (trace s) tx n)) [0..<n])]\<rparr>)"
  by (simp add: bus_rw_def split: prod.splits)

lemma and_2_eq_0: "(p :: u8) AND 2 = 0 \<longleftrightarrow> \<not> bit p 1"
  using and_mask_bit1 [of p] by auto

lemmas monitor_simps = guard_of_def monitor_append bus_cs_def bus_rw_unfold bus_busy_def
  command_guard_def

lemma guard_of_pair: "guard_of s = g \<Longrightarrow> \<exists>ph. monitor (trace s) = (ph, g)"
  by (cases "monitor (trace s)") (simp add: guard_of_def)

lemma S25FL064L_Command_guard_Inl:
  assumes "S25FL064L_Command d cmd nul n s = Inl (e, s')" and "wired c d" and "\<not> (nul \<and> 0 < n)"
  shows "\<exists>rx. monitor (trace s') = (Released, command_guard (guard_of s) cmd e rx) \<and> e \<noteq> S25FL064_NO_ERROR"
proof -
  obtain ph where m: "monitor (trace s) = (ph, guard_of s)"
    using guard_of_pair [OF refl] by blast
  from assms show ?thesis
    by (auto simp: S25FL064L_Command_wired [OF assms(2,3)] monitor_append m
             split: prod.splits if_splits)
qed

lemma S25FL064L_Command_guard_Inr:
  assumes "S25FL064L_Command d cmd nul n s = Inr (Rx, s')" and "wired c d" and "\<not> (nul \<and> 0 < n)"
  shows "monitor (trace s') = (Released, command_guard (guard_of s) cmd S25FL064_NO_ERROR (map Rx [0..<n]))"
proof -
  obtain ph where m: "monitor (trace s) = (ph, guard_of s)"
    using guard_of_pair [OF refl] by blast
  from assms show ?thesis
    by (auto simp: S25FL064L_Command_wired [OF assms(2,3)] monitor_append m
             split: prod.splits if_splits)
qed

lemma monitor_busy_call:
  "wired c d \<Longrightarrow> monitor (trace (case p_Busy d of Some busy \<Rightarrow> busy s | None \<Rightarrow> s)) = monitor (trace s)"
proof (cases "p_Busy d")
  case None
  then show ?thesis by simp
next
  case (Some k)
  assume "wired c d"
  from wired_Busy [OF this Some] have "k = bus_busy" .
  with Some show ?thesis
    by (cases "monitor (trace s)") (simp add: bus_busy_def monitor_append)
qed

lemma S25FL064L_WaitBusy_guard:
  assumes run: "S25FL064L_WaitBusy d s = Some (e, s')" and w: "wired c d" and g: "guard_of s = Idle"
  shows "monitor (trace s') = (Released, Idle)"
proof -
  have "wired c d \<longrightarrow> guard_of s = Idle \<longrightarrow> monitor (trace (snd (e, s'))) = (Released, Idle)"
  proof (rule S25FL064L_WaitBusy.raw_induct
      [where P = "\<lambda>d s r. wired c d \<longrightarrow> guard_of s = Idle \<longrightarrow> monitor (trace (snd r)) = (Released, Idle)",
        OF _ run], goal_cases)
    case (1 W dv sv rv)
    show ?case
    proof (intro impI)
      assume wv: "wired c dv" and gv: "guard_of sv = Idle"
      show "monitor (trace (snd rv)) = (Released, Idle)"
      proof (cases "S25FL064L_Command dv [S25FL064L_CMD_RDSR1] False 2 sv")
        case (Inl a)
        obtain e1 s1 where a: "a = (e1, s1)" by (cases a)
        from S25FL064L_Command_guard_Inl [OF Inl [unfolded a] wv] gv
        have "monitor (trace s1) = (Released, Idle)"
          by (auto simp: command_guard_def)
        with 1(2) Inl a show ?thesis by auto
      next
        case (Inr b)
        obtain Rx s1 where b: "b = (Rx, s1)" by (cases b)
        from S25FL064L_Command_guard_Inr [OF Inr [unfolded b] wv] gv
        have m1: "monitor (trace s1) = (Released, Idle)"
          by (auto simp: command_guard_def)
        let ?s2 = "case p_Busy dv of Some busy \<Rightarrow> busy s1 | None \<Rightarrow> s1"
        from m1 monitor_busy_call [OF wv, of s1] have m2: "monitor (trace ?s2) = (Released, Idle)"
          by simp
        then have g2: "guard_of ?s2 = Idle" by (simp add: guard_of_def)
        show ?thesis
        proof (cases "Rx 1 AND push_bit S25FL064L_BIT_BUSY 1 \<noteq> 0")
          case True
          with 1(2) Inr b have "W dv ?s2 = Some rv" by (simp add: Let_def)
          from 1(1) [OF this] wv g2 show ?thesis by simp
        next
          case False
          with 1(2) Inr b have "rv = (S25FL064_NO_ERROR, ?s2)" by (simp add: Let_def)
          with m2 show ?thesis by simp
        qed
      qed
    qed
  qed
  with w g show ?thesis by simp
qed

lemma bus_rw_monitor:
  "bus_rw c tx n s = (e, rx, s') \<Longrightarrow>
     monitor (trace s') = step (Exchange tx n e (map rx [0..<n])) (monitor (trace s))"
  by (auto simp: bus_rw_def monitor_append split: prod.splits)

lemma bus_rw_streaming:
  "bus_rw c tx n s = (e, rx, s') \<Longrightarrow> monitor (trace s) = (Streaming, g)
   \<Longrightarrow> monitor (trace s') = (Streaming, g)"
  by (simp add: bus_rw_monitor)

lemma monitor_bus_cs: "monitor (trace (bus_cs b s)) = step (ChipSelect b) (monitor (trace s))"
  by (simp add: bus_cs_def monitor_append)

lemma guard_of_release: "monitor (trace s) = (ph, g) \<Longrightarrow> guard_of (bus_cs False s) = g"
  by (simp add: guard_of_def monitor_bus_cs)

lemma page_completion_guard:
  assumes m: "monitor (trace s5) = (Streaming, Idle)" and w: "wired c d"
    and run: "(case S25FL064L_WaitBusy d (bus_cs False s5) of
                 None \<Rightarrow> None
               | Some (Error, s6) \<Rightarrow>
                   if Error \<noteq> S25FL064_NO_ERROR then Some (Inl (Error, bus_cs False s6))
                   else Some (Inr (tx', tmp', adr', r', bus_cs False s6))) = Some res"
  shows "case res of
           Inl (e, s') \<Rightarrow> guard_of s' = Idle
         | Inr (tx', tmp', adr', r', s') \<Rightarrow> guard_of s' = Idle"
proof (cases "S25FL064L_WaitBusy d (bus_cs False s5)")
  case None
  with run show ?thesis by simp
next
  case (Some p)
  obtain e6 s6 where p: "p = (e6, s6)" by (cases p)
  from guard_of_release [OF m] have "guard_of (bus_cs False s5) = Idle" .
  from S25FL064L_WaitBusy_guard [OF Some [unfolded p] w this]
  have "guard_of (bus_cs False s6) = Idle" by (rule guard_of_release)
  with run Some p show ?thesis by (auto split: if_splits)
qed

lemma S25FL064L_Write_body_guard:
  assumes run: "S25FL064L_Write_body d buf tx tmp adr r s = Some res"
    and w: "wired c d" and g: "guard_of s = Idle"
  shows "case res of
           Inl (e, s') \<Rightarrow> (guard_of s' = Idle \<or> guard_of s' = Denied)
                          \<and> (guard_of s' = Denied \<longrightarrow> e = S25FL064_WRITE_PROTECTED)
         | Inr (tx', tmp', adr', r', s') \<Rightarrow> guard_of s' = Idle"
proof (cases "S25FL064L_Command d (map (tx(0 := S25FL064L_CMD_WREN)) [0..<1]) True 0 s")
  case (Inl a)
  obtain e1 s1 where a: "a = (e1, s1)" by (cases a)
  from S25FL064L_Command_guard_Inl [OF Inl [unfolded a] w] g
  have "guard_of s1 = Idle" by (auto simp: command_guard_def guard_of_def)
  moreover from run Inl a have "res = Inl (e1, s1)"
    by (simp add: S25FL064L_Write_body_def Let_def)
  ultimately show ?thesis by simp
next
  case (Inr b)
  obtain x1 s1 where b: "b = (x1, s1)" by (cases b)
  from S25FL064L_Command_guard_Inr [OF Inr [unfolded b] w] g
  have g1: "guard_of s1 = Armed" by (simp add: command_guard_def guard_of_def)
  let ?Tx2 = "tx(0 := S25FL064L_CMD_RDSR1)"
  note c1 = Inr [unfolded b]
  show ?thesis
  proof (cases "S25FL064L_Command d (map ?Tx2 [0..<5]) False 2 s1")
    case (Inl a2)
    obtain e2 s2 where a2: "a2 = (e2, s2)" by (cases a2)
    from S25FL064L_Command_guard_Inl [OF Inl [unfolded a2] w] g1
    have "guard_of s2 = Idle" by (auto simp: command_guard_def guard_of_def map_upt_0_numeral)
    moreover from run c1 Inl a2 have "res = Inl (e2, s2)"
      by (simp add: S25FL064L_Write_body_def Let_def)
    ultimately show ?thesis by simp
  next
    case (Inr b2)
    obtain Rx s2 where b2: "b2 = (Rx, s2)" by (cases b2)
    note c2 = Inr [unfolded b2]
    from S25FL064L_Command_guard_Inr [OF c2 w] g1
    have m2: "monitor (trace s2) = (Released, if bit (Rx 1) 1 then Checked else Denied)"
      by (simp add: command_guard_def map_upt_0_numeral)
    show ?thesis
    proof (cases "bit (Rx 1) 1")
      case False
      with m2 have "guard_of s2 = Denied" by (simp add: guard_of_def)
      moreover from False run c1 c2 have "res = Inl (S25FL064_WRITE_PROTECTED, s2)"
        by (simp add: S25FL064L_Write_body_def Let_def and_2_eq_0)
      ultimately show ?thesis by simp
    next
      case True
      let ?Tx3 = "address_frame ?Tx2 S25FL064L_CMD_4PP adr"
      obtain e3 x3 s3 where rw3: "bus_rw c (map ?Tx3 [0..<5]) 0 (bus_cs True s2) = (e3, x3, s3)"
        by (cases "bus_rw c (map ?Tx3 [0..<5]) 0 (bus_cs True s2)")
      from True m2 have "monitor (trace (bus_cs True s2)) = (Fresh, Checked)"
        by (simp add: monitor_bus_cs)
      with bus_rw_monitor [OF rw3] have m3: "monitor (trace s3) = (Streaming, Idle)"
        by (simp add: command_guard_def address_frame_bytes)
      note defs = S25FL064L_Write_body_def Let_def and_2_eq_0 wired_CS [OF w] wired_RW [OF w]
      note facts = run c1 c2 True rw3
      show ?thesis
      proof (cases "e3 = S25FL064_NO_ERROR")
        case False
        with facts have "res = Inl (e3, bus_cs False s3)" by (simp add: defs)
        with guard_of_release [OF m3] show ?thesis by simp
      next
        case ok3: True
        show ?thesis
        proof (cases "S25FL064L_PAGE_SIZE \<le> r")
          case full: True
          obtain e4 x4 s4 where rw4: "bus_rw c (map tmp [0..<255]) 0 s3 = (e4, x4, s4)"
            by (cases "bus_rw c (map tmp [0..<255]) 0 s3")
          from bus_rw_streaming [OF rw4 m3] have m4: "monitor (trace s4) = (Streaming, Idle)" .
          show ?thesis
          proof (cases "e4 = S25FL064_NO_ERROR")
            case False
            with facts ok3 full rw4 have "res = Inl (S25FL064_INVALID_PARAM, bus_cs False s4)"
              by (simp add: defs logical_or_result_def)
            with guard_of_release [OF m4] show ?thesis by simp
          next
            case ok4: True
            obtain e5 x5 s5 where rw5: "bus_rw c (map (offset_bytes tmp 255) [0..<1]) 0 s4 = (e5, x5, s5)"
              by (cases "bus_rw c (map (offset_bytes tmp 255) [0..<1]) 0 s4")
            from bus_rw_streaming [OF rw5 m4] have m5: "monitor (trace s5) = (Streaming, Idle)" .
            show ?thesis
            proof (cases "e5 = S25FL064_NO_ERROR")
              case False
              with facts ok3 full rw4 ok4 rw5 have "res = Inl (S25FL064_INVALID_PARAM, bus_cs False s5)"
                by (simp add: defs logical_or_result_def)
              with guard_of_release [OF m5] show ?thesis by simp
            next
              case ok5: True
              from facts ok3 full rw4 ok4 rw5 ok5
              have "(case S25FL064L_WaitBusy d (bus_cs False s5) of
                       None \<Rightarrow> None
                     | Some (Error, s6) \<Rightarrow>
                         if Error \<noteq> S25FL064_NO_ERROR then Some (Inl (Error, bus_cs False s6))
                         else Some (Inr (?Tx3, offset_bytes tmp (unat S25FL064L_PAGE_SIZE),
                                adr + S25FL064L_PAGE_SIZE, r - S25FL064L_PAGE_SIZE, bus_cs False s6)))
                    = Some res"
                by (simp add: defs logical_or_result_def)
              from page_completion_guard [OF m5 w this] show ?thesis
                by (auto split: sum.splits)
            qed
          qed
        next
          case part: False
          obtain e4 x4 s4 where rw4: "bus_rw c (map buf [0..<unat r]) 0 s3 = (e4, x4, s4)"
            by (cases "bus_rw c (map buf [0..<unat r]) 0 s3")
          from bus_rw_streaming [OF rw4 m3] have m4: "monitor (trace s4) = (Streaming, Idle)" .
          show ?thesis
          proof (cases "e4 = S25FL064_NO_ERROR")
            case False
            with facts ok3 part rw4 have "res = Inl (e4, bus_cs False s4)"
              by (simp add: defs)
            with guard_of_release [OF m4] show ?thesis by simp
          next
            case ok4: True
            from facts ok3 part rw4 ok4
            have "(case S25FL064L_WaitBusy d (bus_cs False s4) of
                     None \<Rightarrow> None
                   | Some (Error, s5) \<Rightarrow>
                       if Error \<noteq> S25FL064_NO_ERROR then Some (Inl (Error, bus_cs False s5))
                       else Some (Inr (?Tx3, tmp, adr, r - r, bus_cs False s5)))
                  = Some res"
              by (simp add: defs)
            from page_completion_guard [OF m4 w this] show ?thesis
              by (auto split: sum.splits)
          qed
        qed
      qed
    qed
  qed
qed

lemma S25FL064L_Write_loop_guard:
  "S25FL064L_Write_loop d buf tx tmp adr r s = Some (e, s') \<Longrightarrow> wired c d \<Longrightarrow> guard_of s = Idle \<Longrightarrow>
   (guard_of s' = Idle \<or> guard_of s' = Denied) \<and> (guard_of s' = Denied \<longrightarrow> e = S25FL064_WRITE_PROTECTED)"
proof (induction d buf tx tmp adr r s rule: S25FL064L_Write_loop.induct)
  case (1 d buf tx tmp adr r s)
  note run = "1.prems"(1) and w = "1.prems"(2) and g = "1.prems"(3)
  show ?case
  proof (cases "S25FL064L_Write_body d buf tx tmp adr r s")
    case None
    with run show ?thesis by (simp add: S25FL064L_Write_loop.simps [of d buf tx tmp adr r s])
  next
    case (Some res)
    note bg = S25FL064L_Write_body_guard [OF Some w g]
    show ?thesis
    proof (cases res)
      case (Inl a)
      with Some run have "a = (e, s')"
        by (simp add: S25FL064L_Write_loop.simps [of d buf tx tmp adr r s])
      with bg Inl show ?thesis by simp
    next
      case (Inr b)
      obtain tx1 tmp1 adr1 r1 s1 where b: "b = (tx1, tmp1, adr1, r1, s1)" by (cases b)
      from bg Inr b have g1: "guard_of s1 = Idle" by simp
      from Some Inr b have body: "S25FL064L_Write_body d buf tx tmp adr r s
          = Some (Inr (tx1, tmp1, adr1, r1, s1))" by simp
      show ?thesis
      proof (cases "0 < r1")
        case True
        with body run have rec: "S25FL064L_Write_loop d buf tx1 tmp1 adr1 r1 s1 = Some (e, s')"
          by (simp add: S25FL064L_Write_loop.simps [of d buf tx tmp adr r s])
        from "1.IH" [OF body refl refl refl refl refl True rec w g1] show ?thesis .
      next
        case False
        with body run have "S25FL064L_WaitBusy d s1 = Some (e, s')"
          by (simp add: S25FL064L_Write_loop.simps [of d buf tx tmp adr r s])
        from S25FL064L_WaitBusy_guard [OF this w g1] show ?thesis by (simp add: guard_of_def)
      qed
    qed
  qed
qed

lemma S25FL064L_EraseSector_guard:
  assumes run: "S25FL064L_EraseSector d Address s = Some (e, s')" and w: "wired c d"
    and g: "guard_of s = Idle"
  shows "guard_of s' = Idle"
proof (cases "S25FL064L_Command d [S25FL064L_CMD_WREN] True 0 s")
  case (Inl a)
  obtain e1 s1 where a: "a = (e1, s1)" by (cases a)
  from S25FL064L_Command_guard_Inl [OF Inl [unfolded a] w] g
  have "guard_of s1 = Idle" by (auto simp: command_guard_def guard_of_def)
  moreover from run Inl a have "s' = s1"
    by (simp add: S25FL064L_EraseSector_def Let_def)
  ultimately show ?thesis by simp
next
  case (Inr b)
  obtain x1 s1 where b: "b = (x1, s1)" by (cases b)
  note c1 = Inr [unfolded b]
  from S25FL064L_Command_guard_Inr [OF c1 w] g
  have m1: "monitor (trace s1) = (Released, Armed)" by (simp add: command_guard_def)
  let ?Tx = "address_frame ((\<lambda>i. 0)(0 := S25FL064L_CMD_WREN)) S25FL064L_CMD_SE Address"
  obtain e2 x2 s2 where rw: "bus_rw c (map ?Tx [0..<5]) 0 (bus_cs True s1) = (e2, x2, s2)"
    by (cases "bus_rw c (map ?Tx [0..<5]) 0 (bus_cs True s1)")
  from m1 have "monitor (trace (bus_cs True s1)) = (Fresh, Armed)"
    by (simp add: monitor_bus_cs)
  with bus_rw_monitor [OF rw] have m2: "monitor (trace s2) = (Streaming, Idle)"
    by (simp add: command_guard_def address_frame_bytes)
  show ?thesis
  proof (cases "e2 = S25FL064_NO_ERROR")
    case False
    with run c1 rw have "s' = bus_cs False s2"
      by (simp add: S25FL064L_EraseSector_def Let_def wired_CS [OF w] wired_RW [OF w])
    with guard_of_release [OF m2] show ?thesis by simp
  next
    case True
    with run c1 rw have "S25FL064L_WaitBusy d (bus_cs False s2) = Some (e, s')"
      by (simp add: S25FL064L_EraseSector_def Let_def wired_CS [OF w] wired_RW [OF w])
    from S25FL064L_WaitBusy_guard [OF this w guard_of_release [OF m2]] show ?thesis
      by (simp add: guard_of_def)
  qed
qed

lemma S25FL064L_EraseChip_guard:
  assumes run: "S25FL064L_EraseChip d s = Some (e, s')" and w: "wired c d"
    and g: "guard_of s = Idle"
  shows "guard_of s' = Idle"
proof (cases "S25FL064L_Command d [S25FL064L_CMD_WREN] True 0 s")
  case (Inl a)
  obtain e1 s1 where a: "a = (e1, s1)" by (cases a)
  from S25FL064L_Command_guard_Inl [OF Inl [unfolded a] w] g
  have "guard_of s1 = Idle" by (auto simp: command_guard_def guard_of_def)
  moreover from run Inl a have "s' = s1"
    by (simp add: S25FL064L_EraseChip_def)
  ultimately show ?thesis by simp
next
  case (Inr b)
  obtain x1 s1 where b: "b = (x1, s1)" by (cases b)
  note c1 = Inr [unfolded b]
  from S25FL064L_Command_guard_Inr [OF c1 w] g
  have g1: "guard_of s1 = Armed" by (simp add: command_guard_def guard_of_def)
  show ?thesis
  proof (cases "S25FL064L_Command d [S25FL064L_CMD_CE] True 0 s1")
    case (Inl a2)
    obtain e2 s2 where a2: "a2 = (e2, s2)" by (cases a2)
    from S25FL064L_Command_guard_Inl [OF Inl [unfolded a2] w] g1
    have "guard_of s2 = Idle" by (auto simp: command_guard_def guard_of_def)
    moreover from run c1 Inl a2 have "s' = s2"
      by (simp add: S25FL064L_EraseChip_def)
    ultimately show ?thesis by simp
  next
    case (Inr b2)
    obtain x2 s2 where b2: "b2 = (x2, s2)" by (cases b2)
    from S25FL064L_Command_guard_Inr [OF Inr [unfolded b2] w] g1
    have g2: "guard_of s2 = Idle" by (simp add: command_guard_def guard_of_def)
    from run c1 Inr b2 have "S25FL064L_WaitBusy d s2 = Some (e, s')"
      by (simp add: S25FL064L_EraseChip_def)
    from S25FL064L_WaitBusy_guard [OF this w g2] show ?thesis
      by (simp add: guard_of_def)
  qed
qed

text \<open>
  C2, as amended. On a wired device object, from a bus history that leaves the monitor
  idle: a write that returns has never violated the discipline, so each of its page
  programs came right after a successful write-enable command and a successful read of
  status register 1 that showed the write-enable latch set; and when the latch was read
  clear the write returned \<open>S25FL064_WRITE_PROTECTED\<close> with no further command. A sector
  erase and a chip erase that return leave the monitor idle: their erase command came
  right after a successful write-enable command, with no status read in between.
\<close>

theorem write_enable_discipline:
  assumes w: "wired c d" and g: "guard_of s = Idle"
  shows "(S25FL064L_Write d Address p_Buffer Length Tx_Buffer s = Some (ew, sw) \<longrightarrow>
            guard_of sw \<noteq> Violated \<and> (guard_of sw = Denied \<longrightarrow> ew = S25FL064_WRITE_PROTECTED))
       \<and> (S25FL064L_EraseSector d Sector s = Some (es, ss) \<longrightarrow> guard_of ss = Idle)
       \<and> (S25FL064L_EraseChip d s = Some (ec, sc) \<longrightarrow> guard_of sc = Idle)"
proof (intro conjI impI)
  assume run: "S25FL064L_Write d Address p_Buffer Length Tx_Buffer s = Some (ew, sw)"
  have "(guard_of sw = Idle \<or> guard_of sw = Denied)
        \<and> (guard_of sw = Denied \<longrightarrow> ew = S25FL064_WRITE_PROTECTED)"
  proof (cases p_Buffer)
    case None
    with run g show ?thesis by (simp add: S25FL064L_Write_def)
  next
    case (Some buf)
    with run have "S25FL064L_Write_loop d buf Tx_Buffer buf Address Length s = Some (ew, sw)"
      by (simp add: S25FL064L_Write_def)
    from S25FL064L_Write_loop_guard [OF this w g] show ?thesis .
  qed
  then show "guard_of sw \<noteq> Violated" and "guard_of sw = Denied \<Longrightarrow> ew = S25FL064_WRITE_PROTECTED"
    by auto
next
  assume "S25FL064L_EraseSector d Sector s = Some (es, ss)"
  from S25FL064L_EraseSector_guard [OF this w g] show "guard_of ss = Idle" .
next
  assume "S25FL064L_EraseChip d s = Some (ec, sc)"
  from S25FL064L_EraseChip_guard [OF this w g] show "guard_of sc = Idle" .
qed

text \<open>
  The monitor does reject traces that break the discipline: a page program with no
  write-enable command, a page program after a write-enable command with no status read,
  and erases with no write-enable command.
\<close>

lemma monitor_rejects_unguarded_commands:
  "guard_of \<lparr>cs_line = False, trace =
      [ChipSelect True, Exchange [S25FL064L_CMD_4PP, 0, 0, 0, 0] 0 S25FL064_NO_ERROR [],
       Exchange [1, 2, 3] 0 S25FL064_NO_ERROR [], ChipSelect False]\<rparr> = Violated"
  "guard_of \<lparr>cs_line = False, trace =
      [ChipSelect True, Exchange [S25FL064L_CMD_WREN] 0 S25FL064_NO_ERROR [], ChipSelect False,
       ChipSelect True, Exchange [S25FL064L_CMD_4PP, 0, 0, 0, 0] 0 S25FL064_NO_ERROR [],
       Exchange [1, 2, 3] 0 S25FL064_NO_ERROR [], ChipSelect False]\<rparr> = Violated"
  "guard_of \<lparr>cs_line = False, trace =
      [ChipSelect True, Exchange [S25FL064L_CMD_SE, 0, 0, 0, 0] 0 S25FL064_NO_ERROR [],
       ChipSelect False]\<rparr> = Violated"
  "guard_of \<lparr>cs_line = False, trace =
      [ChipSelect True, Exchange [S25FL064L_CMD_CE] 0 S25FL064_NO_ERROR [], ChipSelect False]\<rparr> = Violated"
  by (simp_all add: guard_of_def monitor_def command_guard_def)

text \<open>
  A chip whose status register always reads 0, write-enable latch clear: the sector erase
  sends the erase command right after the write-enable command and returns success.
\<close>

theorem S25FL064L_EraseSector_latch_not_read:
  "S25FL064L_EraseSector (device (const_chip 0)) 0x1000 idle_bus
   = Some (S25FL064_NO_ERROR, \<lparr>cs_line = False, trace =
       [ChipSelect True, Exchange [S25FL064L_CMD_WREN] 0 S25FL064_NO_ERROR [], ChipSelect False,
        ChipSelect True, Exchange [S25FL064L_CMD_SE, 0x00, 0x00, 0x10, 0x00] 0 S25FL064_NO_ERROR [],
        ChipSelect False,
        ChipSelect True, Exchange [S25FL064L_CMD_RDSR1] 2 S25FL064_NO_ERROR [0, 0], ChipSelect False,
        BusyTick]\<rparr>)"
  by (simp add: eval_simps map_upt_0_numeral)

text \<open>
  The same chip refuses a write: the latch is read clear and the write returns
  \<open>S25FL064_WRITE_PROTECTED\<close> after the status read.
\<close>

theorem write_enable_discipline_witness:
  "wired (const_chip 0) (device (const_chip 0))
   \<and> guard_of idle_bus = Idle
   \<and> S25FL064L_Write (device (const_chip 0)) 0 (Some zero_bytes) 1 zero_bytes idle_bus
       = Some (S25FL064_WRITE_PROTECTED, \<lparr>cs_line = False, trace =
           [ChipSelect True, Exchange [S25FL064L_CMD_WREN] 0 S25FL064_NO_ERROR [], ChipSelect False,
            ChipSelect True, Exchange [S25FL064L_CMD_RDSR1, 0, 0, 0, 0] 2 S25FL064_NO_ERROR [0, 0],
            ChipSelect False]\<rparr>)
   \<and> guard_of \<lparr>cs_line = False, trace =
           [ChipSelect True, Exchange [S25FL064L_CMD_WREN] 0 S25FL064_NO_ERROR [], ChipSelect False,
            ChipSelect True, Exchange [S25FL064L_CMD_RDSR1, 0, 0, 0, 0] 2 S25FL064_NO_ERROR [0, 0],
            ChipSelect False]\<rparr> = Denied"
proof -
  let ?sw = "\<lparr>cs_line = False, trace =
           [ChipSelect True, Exchange [S25FL064L_CMD_WREN] 0 S25FL064_NO_ERROR [], ChipSelect False,
            ChipSelect True, Exchange [S25FL064L_CMD_RDSR1, 0, 0, 0, 0] 2 S25FL064_NO_ERROR [0, 0],
            ChipSelect False]\<rparr>"
  have w: "wired (const_chip 0) (device (const_chip 0))" by (rule wired_device)
  have g: "guard_of idle_bus = Idle" by (simp add: guard_of_def monitor_def idle_bus_def)
  have run: "S25FL064L_Write (device (const_chip 0)) 0 (Some zero_bytes) 1 zero_bytes idle_bus
       = Some (S25FL064_WRITE_PROTECTED, ?sw)"
    by (simp add: eval_simps map_upt_0_numeral)
  have d: "guard_of ?sw = Denied"
    by (simp add: guard_of_def monitor_def command_guard_def)
  from write_enable_discipline [OF w g, where Address = 0 and p_Buffer = "Some zero_bytes"
      and Length = 1 and Tx_Buffer = zero_bytes and ew = S25FL064_WRITE_PROTECTED and sw = ?sw]
    w g run d
  show ?thesis by blast
qed

end
